theory Spec2Isabelle
  imports Complex_Main
begin

section \<open>JavaScript values used by the viewer\<close>

text \<open>
  Frame indices are JavaScript numbers.  The scripts only ever produce integers or, when
  the remainder operator divides by an empty frame list, \<open>NaN\<close>.  Times and pixel lengths
  are modelled as real numbers; a length that JavaScript would compute as \<open>NaN\<close> or
  \<open>Infinity\<close> (division by a zero width) is \<open>None\<close>.
\<close>

datatype jsnum = Num int | NaN

text \<open>JavaScript \<open>a % n\<close> on integers: the sign follows the dividend, \<open>n = 0\<close> gives \<open>NaN\<close>.\<close>

definition js_rem :: "jsnum \<Rightarrow> int \<Rightarrow> jsnum" where
  "js_rem a n =
     (case a of
        NaN \<Rightarrow> NaN
      | Num i \<Rightarrow> if n = 0 then NaN else Num (sgn i * (\<bar>i\<bar> mod \<bar>n\<bar>)))"

definition js_add :: "jsnum \<Rightarrow> int \<Rightarrow> jsnum" where
  "js_add a k = (case a of NaN \<Rightarrow> NaN | Num i \<Rightarrow> Num (i + k))"

text \<open>\<open>xs[index]\<close>: \<open>undefined\<close> (here \<open>None\<close>) outside the list and for \<open>NaN\<close>.\<close>

definition js_index :: "'a list \<Rightarrow> jsnum \<Rightarrow> 'a option" where
  "js_index xs index =
     (case index of
        NaN \<Rightarrow> None
      | Num i \<Rightarrow> if 0 \<le> i \<and> i < int (length xs) then Some (xs ! nat i) else None)"

text \<open>An \<open>undefined\<close> path used as a property name is converted to the key \<open>"undefined"\<close>.\<close>

definition property_key :: "string option \<Rightarrow> string" where
  "property_key path = (case path of None \<Rightarrow> ''undefined'' | Some p \<Rightarrow> p)"

text \<open>
  The names that a plain object \<open>{}\<close> inherits from \<open>Object.prototype\<close>.  Each of them
  reads as a function or an object: a true value that has no \<open>src\<close>, \<open>naturalWidth\<close> or
  \<open>naturalHeight\<close>.
\<close>

definition Object_prototype_members :: "string list" where
  "Object_prototype_members =
     [''constructor'', ''__defineGetter__'', ''__defineSetter__'', ''hasOwnProperty'',
      ''__lookupGetter__'', ''__lookupSetter__'', ''isPrototypeOf'', ''propertyIsEnumerable'',
      ''toString'', ''valueOf'', ''__proto__'', ''toLocaleString'']"

definition js_div :: "real \<Rightarrow> real \<Rightarrow> real option" where
  "js_div a b = (if b = 0 then None else Some (a / b))"

section \<open>Frame store and page state\<close>

record image =
  img_src :: string
  naturalWidth :: nat
  naturalHeight :: nat

datatype message = InitialMessage | LoadingImage nat nat | ErrorLoadingImages | ErrorLoadingData

datatype button_label = InitialLabel | PauseLabel | PlayLabel

datatype promise = Pending | Fulfilled | Rejected

text \<open>
  The module-level variables of the script together with the properties of the page
  elements that the script writes.  \<open>animationFramePending\<close> says whether the callback
  registered under \<open>animationFrameId\<close> is still scheduled.  The magnifier fields exist only
  in \<open>docs/script.js\<close>; in the two zoom variants \<open>magnifierActive\<close> stays \<open>False\<close>.
\<close>

record player =
  imagePaths :: "string list"
  imageCache :: "string \<rightharpoonup> image"
  currentIndex :: jsnum
  isPlaying :: bool
  lastFrameTime :: real
  animationFramePending :: bool
  loadedCount :: nat
  loadPromises :: promise
  scrubber_value :: jsnum
  scrubber_max :: int
  scrubber_shown :: bool
  goesImage_src :: string
  goesImage_shown :: bool
  goesImage_naturalWidth :: nat
  goesImage_naturalHeight :: nat
  controls_shown :: bool
  loadingMessage_text :: message
  loadingMessage_shown :: bool
  playPauseBtn_text :: button_label
  activePointerId :: "int option"
  magnifierActive :: bool
  magnifier_captured :: "int set"
  magnifier_shown :: bool
  magnifier_backgroundImage :: "string option"
  magnifier_backgroundSize :: "(real \<times> real) option"
  magnifier_backgroundPosition :: "(real option \<times> real option) option"
  magnifier_left :: "real option"
  magnifier_top :: "real option"

text \<open>
  \<open>ANIMATION_FPS\<close> is 5 in two of the scripts and 7 in the third; the functions that
  depend on it take it as the argument \<open>fps\<close>.
\<close>

definition FRAME_INTERVAL_MS :: "real \<Rightarrow> real" where
  "FRAME_INTERVAL_MS ANIMATION_FPS = 1000 / ANIMATION_FPS"

definition LAST_FRAME_HOLD_TIME_MS :: real where
  "LAST_FRAME_HOLD_TIME_MS = 1000"

definition MAG_ZOOM :: real where
  "MAG_ZOOM = 5 / 2"

definition MAG_DIAMETER :: real where
  "MAG_DIAMETER = 180"

definition MAG_RADIUS :: real where
  "MAG_RADIUS = MAG_DIAMETER / 2"

definition MAG_OFFSET :: "real \<times> real" where
  "MAG_OFFSET = (16, - (MAG_RADIUS + 16))"

text \<open>
  The state when the script has run its top level and nothing has been fetched yet.
  The variables have the values of their declarations.  The markup and the style sheet
  are not among the scripts; the element properties start as the loader counts on them:
  the loading message visible, the image, the controls and the scrubber hidden.
\<close>

definition initial_player :: player where
  "initial_player =
     \<lparr> imagePaths = [], imageCache = Map.empty, currentIndex = Num 0, isPlaying = True,
       lastFrameTime = 0, animationFramePending = False, loadedCount = 0,
       loadPromises = Pending, scrubber_value = Num 0, scrubber_max = 100,
       scrubber_shown = False, goesImage_src = [], goesImage_shown = False,
       goesImage_naturalWidth = 0, goesImage_naturalHeight = 0, controls_shown = False,
       loadingMessage_text = InitialMessage, loadingMessage_shown = True,
       playPauseBtn_text = InitialLabel, activePointerId = None, magnifierActive = False,
       magnifier_captured = {}, magnifier_shown = False, magnifier_backgroundImage = None,
       magnifier_backgroundSize = None, magnifier_backgroundPosition = None,
       magnifier_left = None, magnifier_top = None \<rparr>"

section \<open>Playback engine\<close>

definition startAnimation :: "player \<Rightarrow> real \<Rightarrow> player" where
  "startAnimation s now =
     (if isPlaying s then s
      else s\<lparr> isPlaying := True, playPauseBtn_text := PauseLabel, lastFrameTime := now,
              animationFramePending := True \<rparr>)"

definition stopAnimation :: "player \<Rightarrow> player" where
  "stopAnimation s =
     (if \<not> isPlaying s then s
      else s\<lparr> isPlaying := False, playPauseBtn_text := PlayLabel,
              animationFramePending := False \<rparr>)"

definition togglePlayPause :: "player \<Rightarrow> real \<Rightarrow> player" where
  "togglePlayPause s now =
     (if isPlaying s then stopAnimation s
      else if length (imagePaths s) > 0 then startAnimation s now
      else s)"

text \<open>
  \<open>img?.naturalWidth || goesImage.naturalWidth || 0\<close>, where \<open>img\<close> is \<open>imageCache[path]\<close>.
  An inherited member has no natural size, so it falls through to the element's size
  exactly as a missing entry does: for the natural size only stored images count.
\<close>

definition natural_size :: "image option \<Rightarrow> nat \<Rightarrow> nat \<Rightarrow> nat \<times> nat" where
  "natural_size img elW elH =
     ((case img of None \<Rightarrow> elW | Some i \<Rightarrow> if naturalWidth i \<noteq> 0 then naturalWidth i else elW),
      (case img of None \<Rightarrow> elH | Some i \<Rightarrow> if naturalHeight i \<noteq> 0 then naturalHeight i else elH))"

definition updateMagnifierSource :: "player \<Rightarrow> player" where
  "updateMagnifierSource s =
     (case js_index (imagePaths s) (currentIndex s) of
        None \<Rightarrow> s
      | Some path \<Rightarrow>
          if path = [] then s
          else
            let s1 = s\<lparr> magnifier_backgroundImage := Some path \<rparr>;
                (nW, nH) = natural_size (imageCache s path)
                             (goesImage_naturalWidth s) (goesImage_naturalHeight s)
            in if nW \<noteq> 0 \<and> nH \<noteq> 0
               then s1\<lparr> magnifier_backgroundSize :=
                          Some (real nW * MAG_ZOOM, real nH * MAG_ZOOM) \<rparr>
               else s1)"

text \<open>
  \<open>imageCache[key]\<close> as \<open>displayFrame\<close> reads it.  \<open>imageCache\<close> is the plain object
  \<open>{}\<close>: the read yields the image stored under the key if there is one, otherwise the
  member of \<open>Object.prototype\<close> of that name if there is one, otherwise \<open>undefined\<close>.
  (Storing an image under the name \<open>__proto__\<close> replaces the object's prototype instead of
  adding an entry; reading that name back yields the image, as here, but other names are
  then inherited from the image element.  The inherited part of this definition holds
  for a cache whose prototype has not been replaced, \<open>default_prototype\<close>.)
\<close>

datatype cache_value = Absent | Inherited | Entry image

definition imageCache_get :: "player \<Rightarrow> string \<Rightarrow> cache_value" where
  "imageCache_get s key =
     (case imageCache s key of
        Some img \<Rightarrow> Entry img
      | None \<Rightarrow> if key \<in> set Object_prototype_members then Inherited else Absent)"


text \<open>
  An inherited member passes the test \<open>if (cachedImage)\<close>; its \<open>src\<close> is \<open>undefined\<close>, which
  the assignment to \<open>goesImage.src\<close> converts to the string \<open>"undefined"\<close>.
\<close>

definition displayFrame :: "player \<Rightarrow> jsnum \<Rightarrow> player" where
  "displayFrame s index =
     (case imageCache_get s (property_key (js_index (imagePaths s) index)) of
        Absent \<Rightarrow> s
      | Inherited \<Rightarrow>
          let s1 = s\<lparr> goesImage_src := ''undefined'' \<rparr>
          in if magnifierActive s1 then updateMagnifierSource s1 else s1
      | Entry cachedImage \<Rightarrow>
          let s1 = s\<lparr> goesImage_src := img_src cachedImage \<rparr>
          in if magnifierActive s1 then updateMagnifierSource s1 else s1)"

definition updateUI :: "player \<Rightarrow> jsnum \<Rightarrow> player" where
  "updateUI s index = displayFrame (s\<lparr> currentIndex := index, scrubber_value := index \<rparr>) index"

definition prevFrame :: "player \<Rightarrow> player" where
  "prevFrame s =
     (let s1 = stopAnimation s;
          n = int (length (imagePaths s1));
          newIndex = js_rem (js_add (js_add (currentIndex s1) (- 1)) n) n
      in updateUI s1 newIndex)"

definition nextFrame :: "player \<Rightarrow> player" where
  "nextFrame s =
     (let s1 = stopAnimation s;
          newIndex = js_rem (js_add (currentIndex s1) 1) (int (length (imagePaths s1)))
      in updateUI s1 newIndex)"

text \<open>
  \<open>handleScrubberInput\<close> runs on the control's change event, after the control has taken
  the value the user chose; \<open>parseInt\<close> of the control's integer value is that value.
\<close>

definition handleScrubberInput :: "player \<Rightarrow> player" where
  "handleScrubberInput s =
     (let s1 = stopAnimation s;
          newIndex = scrubber_value s1
      in updateUI s1 newIndex)"

definition currentFrameInterval :: "real \<Rightarrow> player \<Rightarrow> real" where
  "currentFrameInterval fps s =
     (let isLastFrame = (currentIndex s = Num (int (length (imagePaths s)) - 1))
      in if isLastFrame then LAST_FRAME_HOLD_TIME_MS else FRAME_INTERVAL_MS fps)"

text \<open>
  One invocation of the frame callback.  The callback that runs is no longer pending;
  unless the engine is stopped it registers itself again on the way out.
\<close>

definition runAnimationLoop :: "real \<Rightarrow> player \<Rightarrow> real \<Rightarrow> player" where
  "runAnimationLoop fps s currentTime =
     (if \<not> isPlaying s then s\<lparr> animationFramePending := False \<rparr>
      else
        let timeSinceLastFrame = currentTime - lastFrameTime s;
            s1 = (if timeSinceLastFrame \<ge> currentFrameInterval fps s
                  then
                    let s2 = s\<lparr> lastFrameTime := currentTime \<rparr>;
                        nextIndex = js_rem (js_add (currentIndex s2) 1)
                                      (int (length (imagePaths s2)))
                    in updateUI s2 nextIndex
                  else s)
        in s1\<lparr> animationFramePending := True \<rparr>)"

section \<open>Loader\<close>

datatype fetch_result = FetchFailed | Manifest "string list"

text \<open>
  The body of \<open>loadAllImages\<close> after \<open>await Promise.all(loadPromises)\<close> has succeeded;
  \<open>now\<close> is what \<open>performance.now()\<close> returns inside \<open>startAnimation\<close>.
\<close>

definition load_succeeded :: "player \<Rightarrow> real \<Rightarrow> player" where
  "load_succeeded s now =
     (let s1 = s\<lparr> loadingMessage_shown := False, goesImage_shown := True,
                   controls_shown := True \<rparr>;
          s2 = s1\<lparr> scrubber_max := int (length (imagePaths s1)) - 1, scrubber_shown := True \<rparr>;
          s3 = updateUI s2 (Num 0);
          s4 = s3\<lparr> isPlaying := False \<rparr>
      in togglePlayPause s4 now)"

text \<open>The \<open>catch\<close> block of \<open>loadAllImages\<close>.\<close>

definition load_failed :: "player \<Rightarrow> player" where
  "load_failed s = s\<lparr> loadingMessage_text := ErrorLoadingImages \<rparr>"

text \<open>
  \<open>loadAllImages\<close> up to the \<open>await\<close>: with an empty list it returns at once, otherwise
  it creates one image per path and waits.
\<close>

definition loadAllImages :: "player \<Rightarrow> player" where
  "loadAllImages s =
     (if length (imagePaths s) = 0 then s
      else s\<lparr> loadedCount := 0, loadPromises := Pending \<rparr>)"

definition fetchImages :: "player \<Rightarrow> fetch_result \<Rightarrow> player" where
  "fetchImages s r =
     (case r of
        FetchFailed \<Rightarrow> s\<lparr> loadingMessage_text := ErrorLoadingData \<rparr>
      | Manifest paths \<Rightarrow>
          let s1 = s\<lparr> imagePaths := paths \<rparr>
          in if length (imagePaths s1) > 0 then loadAllImages s1 else s1)"

text \<open>
  The browser delivers the completions of the image loads one at a time, in completion
  order.  Every image fires \<open>load\<close> or \<open>error\<close> at most once, so all promises are fulfilled
  exactly when \<open>loadedCount\<close> reaches the number of paths; the continuation of the
  \<open>await\<close> runs right after the handler that settles \<open>Promise.all\<close>, before any other
  event.  A handler that fires after \<open>Promise.all\<close> has settled still runs its body.
\<close>

datatype load_event = ImageLoaded string image real | ImageError string

definition img_onload :: "player \<Rightarrow> string \<Rightarrow> image \<Rightarrow> real \<Rightarrow> player" where
  "img_onload s path img now =
     (let totalCount = length (imagePaths s);
          s1 = s\<lparr> loadedCount := loadedCount s + 1 \<rparr>;
          s2 = s1\<lparr> loadingMessage_text := LoadingImage (loadedCount s1) totalCount \<rparr>;
          s3 = s2\<lparr> imageCache := (imageCache s2)(path \<mapsto> img) \<rparr>
      in if loadPromises s3 = Pending \<and> loadedCount s3 = totalCount
         then load_succeeded (s3\<lparr> loadPromises := Fulfilled \<rparr>) now
         else s3)"

definition img_onerror :: "player \<Rightarrow> string \<Rightarrow> player" where
  "img_onerror s path =
     (if loadPromises s = Pending then load_failed (s\<lparr> loadPromises := Rejected \<rparr>) else s)"

definition load_step :: "player \<Rightarrow> load_event \<Rightarrow> player" where
  "load_step s e =
     (case e of
        ImageLoaded path img now \<Rightarrow> img_onload s path img now
      | ImageError path \<Rightarrow> img_onerror s path)"

fun is_loaded :: "load_event \<Rightarrow> bool" where
  "is_loaded (ImageLoaded path img now) = True"
| "is_loaded (ImageError path) = False"

definition load_run :: "player \<Rightarrow> load_event list \<Rightarrow> player" where
  "load_run s es = foldl load_step s es"

section \<open>Events of the loaded page\<close>

text \<open>
  What can happen once the page is loaded: clicks on the three buttons, a change of the
  scrubber to a value chosen by the user, and the frame callback (which only runs while
  it is scheduled).
\<close>

datatype ui_event =
    ClickPlayPause real
  | ClickPrev
  | ClickNext
  | ScrubberChange int
  | AnimationFrame real

definition ui_step :: "real \<Rightarrow> player \<Rightarrow> ui_event \<Rightarrow> player" where
  "ui_step fps s e =
     (case e of
        ClickPlayPause now \<Rightarrow> togglePlayPause s now
      | ClickPrev \<Rightarrow> prevFrame s
      | ClickNext \<Rightarrow> nextFrame s
      | ScrubberChange v \<Rightarrow> handleScrubberInput (s\<lparr> scrubber_value := Num v \<rparr>)
      | AnimationFrame t \<Rightarrow> if animationFramePending s then runAnimationLoop fps s t else s)"

definition ui_run :: "real \<Rightarrow> player \<Rightarrow> ui_event list \<Rightarrow> player" where
  "ui_run fps s es = foldl (ui_step fps) s es"

text \<open>A decoded image of 800 by 600 pixels served under \<open>path\<close>.\<close>

definition picture :: "string \<Rightarrow> image" where
  "picture path = \<lparr> img_src = path, naturalWidth = 800, naturalHeight = 600 \<rparr>"

text \<open>The page after the manifest \<open>["a.png","b.png","c.png"]\<close> has loaded completely at time 0.\<close>

definition abc_player :: player where
  "abc_player =
     load_run (fetchImages initial_player (Manifest [''a.png'', ''b.png'', ''c.png'']))
       [ImageLoaded ''b.png'' (picture ''b.png'') 0,
        ImageLoaded ''a.png'' (picture ''a.png'') 0,
        ImageLoaded ''c.png'' (picture ''c.png'') 0]"

text \<open>The scrubber hands over only values between its bounds.\<close>

definition within_scrubber_range :: "player \<Rightarrow> ui_event \<Rightarrow> bool" where
  "within_scrubber_range s e =
     (case e of ScrubberChange v \<Rightarrow> 0 \<le> v \<and> v \<le> scrubber_max s | _ \<Rightarrow> True)"

text \<open>The index is a frame position and the scrubber's bound is the last position.\<close>

definition index_in_range :: "player \<Rightarrow> bool" where
  "index_in_range s =
     (\<exists>i. currentIndex s = Num i \<and> 0 \<le> i \<and> i < int (length (imagePaths s)) \<and>
          scrubber_max s = int (length (imagePaths s)) - 1)"


text \<open>A manifest whose second frame is served under the name \<open>undefined\<close>, loaded completely.\<close>

definition undefined_frame_player :: player where
  "undefined_frame_player =
     load_run (fetchImages initial_player (Manifest [''a.png'', ''undefined'']))
       [ImageLoaded ''a.png'' (picture ''a.png'') 0,
        ImageLoaded ''undefined'' (picture ''undefined'') 0]"

text \<open>Two frames; the first fails at once, the second arrives 50 ms later.\<close>

definition ab_failed_player :: player where
  "ab_failed_player =
     load_run (fetchImages initial_player (Manifest [''a.png'', ''b.png'']))
       [ImageError ''a.png'', ImageLoaded ''b.png'' (picture ''b.png'') 50]"

section \<open>Running the frame callback over simulated time\<close>

text \<open>
  The host calls \<open>runAnimationLoop\<close> at the instants \<open>ts\<close>, one after the other, while the
  callback is scheduled.  \<open>tick_advances\<close> is the test of the callback's inner \<open>if\<close>, and
  \<open>count_advances\<close> counts the ticks of a run that pass it.
\<close>

fun run_ticks :: "real \<Rightarrow> player \<Rightarrow> real list \<Rightarrow> player" where
  "run_ticks fps s [] = s"
| "run_ticks fps s (t # ts) = run_ticks fps (runAnimationLoop fps s t) ts"

definition tick_advances :: "real \<Rightarrow> player \<Rightarrow> real \<Rightarrow> bool" where
  "tick_advances fps s t = (isPlaying s \<and> t - lastFrameTime s \<ge> currentFrameInterval fps s)"

fun count_advances :: "real \<Rightarrow> player \<Rightarrow> real list \<Rightarrow> nat" where
  "count_advances fps s [] = 0"
| "count_advances fps s (t # ts) =
     (if tick_advances fps s t then 1 else 0) + count_advances fps (runAnimationLoop fps s t) ts"

text \<open>
  The threshold of frame \<open>j\<close> among \<open>n\<close> frames, and the time that \<open>m\<close> consecutive frames
  starting at frame \<open>j\<close> take when every advance happens the instant its threshold is
  reached.
\<close>

definition dwell :: "real \<Rightarrow> nat \<Rightarrow> nat \<Rightarrow> real" where
  "dwell fps n j = (if Suc j = n then LAST_FRAME_HOLD_TIME_MS else FRAME_INTERVAL_MS fps)"

fun loop_time :: "real \<Rightarrow> nat \<Rightarrow> nat \<Rightarrow> nat \<Rightarrow> real" where
  "loop_time fps n j 0 = 0"
| "loop_time fps n j (Suc m) = dwell fps n j + loop_time fps n (Suc j mod n) m"

text \<open>Ticks every 150 ms over the 1400 ms that one loop of three frames at 5 fps takes.\<close>

definition ticks_150 :: "real list" where
  "ticks_150 = [150, 300, 450, 600, 750, 900, 1050, 1200, 1350, 1400]"

text \<open>Ticks every 100 ms over the same 1400 ms.\<close>

definition ticks_100 :: "real list" where
  "ticks_100 = [100, 200, 300, 400, 500, 600, 700, 800, 900, 1000, 1100, 1200, 1300, 1400]"

section \<open>Pointer events and layout\<close>

text \<open>
  A \<open>DOMRect\<close> as \<open>getBoundingClientRect\<close> returns it, in viewport coordinates, and the
  fields of a pointer event that the scripts read.  What \<open>getBoundingClientRect\<close>
  returns depends on the layout at the moment of the call, so every handler that calls
  it takes the rectangle it would get as an argument.
\<close>

record rect =
  rect_left :: real
  rect_top :: real
  rect_width :: real
  rect_height :: real

datatype pointer_type = Mouse | Touch | Pen

record pointer_event =
  pointerId :: int
  isPrimary :: bool
  pointerType :: pointer_type
  clientX :: real
  clientY :: real

section \<open>Clamped-origin zoom\<close>

text \<open>
  The variant with \<open>setupZoomFeature\<close>.  The transform origin is kept as the pair of
  percentages the script writes; \<open>None\<close> is the cleared style.  \<open>container_captured\<close> is
  the set of pointers captured by the image container.
\<close>

definition ZOOM_SCALE :: real where
  "ZOOM_SCALE = 21 / 10"

definition CONTROL_INSET_PX :: real where
  "CONTROL_INSET_PX = 80"

definition ALLOW_MOUSE_INPUT :: bool where
  "ALLOW_MOUSE_INPUT = True"

record zoom_state =
  isZooming :: bool
  imageRectCache :: "rect option"
  container_captured :: "int set"
  zoomWrapper_transformOrigin :: "(real \<times> real) option"
  zoomWrapper_transform :: "real option"

definition controlBoxWidth :: "rect \<Rightarrow> real" where
  "controlBoxWidth r = max 1 (rect_width r - 2 * CONTROL_INSET_PX)"

definition controlBoxHeight :: "rect \<Rightarrow> real" where
  "controlBoxHeight r = max 1 (rect_height r - 2 * CONTROL_INSET_PX)"

definition clampedX :: "rect \<Rightarrow> pointer_event \<Rightarrow> real" where
  "clampedX r event =
     (let x = clientX event - rect_left r
      in max CONTROL_INSET_PX (min x (rect_width r - CONTROL_INSET_PX)))"

definition clampedY :: "rect \<Rightarrow> pointer_event \<Rightarrow> real" where
  "clampedY r event =
     (let y = clientY event - rect_top r
      in max CONTROL_INSET_PX (min y (rect_height r - CONTROL_INSET_PX)))"

definition originX :: "rect \<Rightarrow> pointer_event \<Rightarrow> real" where
  "originX r event = (clampedX r event - CONTROL_INSET_PX) / controlBoxWidth r"

definition originY :: "rect \<Rightarrow> pointer_event \<Rightarrow> real" where
  "originY r event = (clampedY r event - CONTROL_INSET_PX) / controlBoxHeight r"

definition applyZoom :: "zoom_state \<Rightarrow> pointer_event \<Rightarrow> zoom_state" where
  "applyZoom s event =
     (case imageRectCache s of
        None \<Rightarrow> s
      | Some r \<Rightarrow>
          s\<lparr> zoomWrapper_transformOrigin := Some (originX r event * 100, originY r event * 100),
              zoomWrapper_transform := Some ZOOM_SCALE \<rparr>)"

definition resetZoom :: "zoom_state \<Rightarrow> zoom_state" where
  "resetZoom s = s\<lparr> zoomWrapper_transform := None, zoomWrapper_transformOrigin := None \<rparr>"

definition handlePointerDown :: "zoom_state \<Rightarrow> rect \<Rightarrow> pointer_event \<Rightarrow> zoom_state" where
  "handlePointerDown s boundingClientRect event =
     (if \<not> ALLOW_MOUSE_INPUT \<and> pointerType event = Mouse then s
      else if \<not> isPrimary event then s
      else
        applyZoom
          (s\<lparr> isZooming := True, imageRectCache := Some boundingClientRect,
               container_captured := insert (pointerId event) (container_captured s) \<rparr>)
          event)"

definition handlePointerMove :: "zoom_state \<Rightarrow> pointer_event \<Rightarrow> zoom_state" where
  "handlePointerMove s event = (if \<not> isZooming s then s else applyZoom s event)"

definition handlePointerUp :: "zoom_state \<Rightarrow> pointer_event \<Rightarrow> zoom_state" where
  "handlePointerUp s event =
     (if \<not> isZooming s then s
      else
        resetZoom
          (s\<lparr> isZooming := False,
               container_captured := container_captured s - {pointerId event},
               imageRectCache := None \<rparr>))"

definition initial_zoom :: zoom_state where
  "initial_zoom =
     \<lparr> isZooming = False, imageRectCache = None, container_captured = {},
       zoomWrapper_transformOrigin = None, zoomWrapper_transform = None \<rparr>"

text \<open>
  A run of pointer-move events; each comes with the rectangle the image occupies at that
  moment, which \<open>handlePointerMove\<close> does not look at.
\<close>

fun zoom_moves :: "zoom_state \<Rightarrow> (rect \<times> pointer_event) list \<Rightarrow> zoom_state" where
  "zoom_moves s [] = s"
| "zoom_moves s ((boundingClientRect, event) # rest) = zoom_moves (handlePointerMove s event) rest"

section \<open>Direct fixed-point zoom\<close>

text \<open>
  The variant with \<open>applyZoomAt\<close>; the transform origin is a pair of pixel lengths.  The
  listeners always pass the event, so the test \<open>e &&\<close> of \<open>endZoom\<close> (and of
  \<open>hideMagnifier\<close> below) is true.
\<close>

definition ZOOM_SCALE_fixed :: real where
  "ZOOM_SCALE_fixed = 2"

record fixed_zoom =
  zoomActive :: bool
  zoomPointerId :: "int option"
  image_captured :: "int set"
  image_transformOrigin :: "(real \<times> real) option"
  image_transform :: "real option"

definition applyZoomAt :: "fixed_zoom \<Rightarrow> rect \<Rightarrow> pointer_event \<Rightarrow> fixed_zoom" where
  "applyZoomAt s boundingClientRect e =
     (let x = clientX e - rect_left boundingClientRect;
          y = clientY e - rect_top boundingClientRect
      in s\<lparr> image_transformOrigin := Some (x, y), image_transform := Some ZOOM_SCALE_fixed \<rparr>)"

definition startZoom :: "fixed_zoom \<Rightarrow> rect \<Rightarrow> pointer_event \<Rightarrow> fixed_zoom" where
  "startZoom s boundingClientRect e =
     (if zoomActive s then s
      else
        applyZoomAt
          (s\<lparr> zoomActive := True, zoomPointerId := Some (pointerId e),
               image_captured := insert (pointerId e) (image_captured s) \<rparr>)
          boundingClientRect e)"

definition moveZoom :: "fixed_zoom \<Rightarrow> rect \<Rightarrow> pointer_event \<Rightarrow> fixed_zoom" where
  "moveZoom s boundingClientRect e =
     (if \<not> zoomActive s \<or> Some (pointerId e) \<noteq> zoomPointerId s then s
      else applyZoomAt s boundingClientRect e)"

definition endZoom :: "fixed_zoom \<Rightarrow> pointer_event \<Rightarrow> fixed_zoom" where
  "endZoom s e =
     (if \<not> zoomActive s \<or> Some (pointerId e) \<noteq> zoomPointerId s then s
      else
        s\<lparr> image_captured := image_captured s - set_option (zoomPointerId s), zoomActive := False,
            zoomPointerId := None, image_transform := Some 1, image_transformOrigin := None \<rparr>)"

text \<open>The \<open>pointerdown\<close> listener of this variant: touch and pen only.\<close>

definition fixed_pointerdown :: "fixed_zoom \<Rightarrow> rect \<Rightarrow> pointer_event \<Rightarrow> fixed_zoom" where
  "fixed_pointerdown s boundingClientRect e =
     (if pointerType e = Touch \<or> pointerType e = Pen then startZoom s boundingClientRect e else s)"

definition initial_fixed_zoom :: fixed_zoom where
  "initial_fixed_zoom =
     \<lparr> zoomActive = False, zoomPointerId = None, image_captured = {},
       image_transformOrigin = None, image_transform = None \<rparr>"

section \<open>Magnifier lens\<close>

definition clamp :: "real \<Rightarrow> real \<Rightarrow> real \<Rightarrow> real" where
  "clamp v lo hi = max lo (min hi v)"

text \<open>
  \<open>moveMagnifier\<close> measures the image and its container on every call.  A background
  coordinate is \<open>None\<close> when the script computes \<open>NaN\<close> for it (an image rectangle of
  zero width or height).
\<close>

definition moveMagnifier :: "player \<Rightarrow> rect \<Rightarrow> rect \<Rightarrow> real \<Rightarrow> real \<Rightarrow> player" where
  "moveMagnifier s imgRect containerRect cX cY =
     (let xRelImg = clamp (cX - rect_left imgRect) 0 (rect_width imgRect);
          yRelImg = clamp (cY - rect_top imgRect) 0 (rect_height imgRect);
          path = js_index (imagePaths s) (currentIndex s);
          img = imageCache s (property_key path);
          (nW, nH) = natural_size img (goesImage_naturalWidth s) (goesImage_naturalHeight s)
      in if nW = 0 \<or> nH = 0 then s
         else
           let scaleX = js_div (real nW) (rect_width imgRect);
               scaleY = js_div (real nH) (rect_height imgRect);
               nx = map_option (\<lambda>k. xRelImg * k) scaleX;
               ny = map_option (\<lambda>k. yRelImg * k) scaleY;
               bgX = map_option (\<lambda>n. - (n * MAG_ZOOM - MAG_RADIUS)) nx;
               bgY = map_option (\<lambda>n. - (n * MAG_ZOOM - MAG_RADIUS)) ny;
               s1 = s\<lparr> magnifier_backgroundPosition := Some (bgX, bgY) \<rparr>;
               centerX = (cX - rect_left containerRect) + fst MAG_OFFSET;
               centerY = (cY - rect_top containerRect) + snd MAG_OFFSET;
               left' = clamp (centerX - MAG_RADIUS) 0 (rect_width containerRect - MAG_DIAMETER);
               top' = clamp (centerY - MAG_RADIUS) 0 (rect_height containerRect - MAG_DIAMETER)
           in s1\<lparr> magnifier_left := Some left', magnifier_top := Some top' \<rparr>)"

definition showMagnifier :: "player \<Rightarrow> rect \<Rightarrow> rect \<Rightarrow> pointer_event \<Rightarrow> player" where
  "showMagnifier s imgRect containerRect e =
     (if magnifierActive s then s
      else
        let s1 = s\<lparr> activePointerId := Some (pointerId e), magnifierActive := True,
                     magnifier_captured := insert (pointerId e) (magnifier_captured s) \<rparr>;
            s2 = updateMagnifierSource s1;
            s3 = s2\<lparr> magnifier_shown := True \<rparr>
        in moveMagnifier s3 imgRect containerRect (clientX e) (clientY e))"

definition updateMagnifier :: "player \<Rightarrow> rect \<Rightarrow> rect \<Rightarrow> pointer_event \<Rightarrow> player" where
  "updateMagnifier s imgRect containerRect e =
     (if \<not> magnifierActive s \<or> Some (pointerId e) \<noteq> activePointerId s then s
      else moveMagnifier s imgRect containerRect (clientX e) (clientY e))"

definition hideMagnifier :: "player \<Rightarrow> pointer_event \<Rightarrow> player" where
  "hideMagnifier s e =
     (if \<not> magnifierActive s \<or> Some (pointerId e) \<noteq> activePointerId s then s
      else
        s\<lparr> magnifier_captured := magnifier_captured s - set_option (activePointerId s),
            activePointerId := None,
            magnifierActive := False, magnifier_shown := False \<rparr>)"

text \<open>The \<open>pointerdown\<close> listener of this variant: touch and pen only.\<close>

definition magnifier_pointerdown :: "player \<Rightarrow> rect \<Rightarrow> rect \<Rightarrow> pointer_event \<Rightarrow> player" where
  "magnifier_pointerdown s imgRect containerRect e =
     (if pointerType e = Touch \<or> pointerType e = Pen
      then showMagnifier s imgRect containerRect e else s)"

section \<open>Sample layouts and gestures\<close>

definition rect_at :: "real \<Rightarrow> real \<Rightarrow> real \<Rightarrow> real \<Rightarrow> rect" where
  "rect_at l t w h = \<lparr> rect_left = l, rect_top = t, rect_width = w, rect_height = h \<rparr>"

definition touch_at :: "int \<Rightarrow> real \<Rightarrow> real \<Rightarrow> pointer_event" where
  "touch_at p x y =
     \<lparr> pointerId = p, isPrimary = True, pointerType = Touch, clientX = x, clientY = y \<rparr>"

definition mouse_at :: "int \<Rightarrow> real \<Rightarrow> real \<Rightarrow> pointer_event" where
  "mouse_at p x y =
     \<lparr> pointerId = p, isPrimary = True, pointerType = Mouse, clientX = x, clientY = y \<rparr>"

definition second_touch_at :: "int \<Rightarrow> real \<Rightarrow> real \<Rightarrow> pointer_event" where
  "second_touch_at p x y =
     \<lparr> pointerId = p, isPrimary = False, pointerType = Touch, clientX = x, clientY = y \<rparr>"

text \<open>A clamped-origin zoom gesture started by touch pointer 5 on a 400 by 300 image.\<close>

definition touch_zoom :: zoom_state where
  "touch_zoom = handlePointerDown initial_zoom (rect_at 0 0 400 300) (touch_at 5 100 100)"

text \<open>A fixed-point zoom gesture started by touch pointer 1 on a 400 by 300 image.\<close>

definition touch_fixed_zoom :: fixed_zoom where
  "touch_fixed_zoom =
     fixed_pointerdown initial_fixed_zoom (rect_at 0 0 400 300) (touch_at 1 100 100)"

text \<open>The magnifier opened by touch pointer 1 on the loaded three-frame page.\<close>

definition touch_magnifier :: player where
  "touch_magnifier =
     magnifier_pointerdown abc_player (rect_at 0 0 400 300) (rect_at 0 0 400 300)
       (touch_at 1 100 100)"

section \<open>Evaluating the model on concrete pages\<close>

lemmas player_eval =
  load_run_def load_step_def fetchImages_def loadAllImages_def
  initial_player_def img_onload_def img_onerror_def load_failed_def load_succeeded_def
  updateUI_def displayFrame_def imageCache_get_def togglePlayPause_def startAnimation_def
  stopAnimation_def js_index_def property_key_def picture_def Let_def

lemma abc_player_fields:
  "imagePaths abc_player = [''a.png'', ''b.png'', ''c.png'']"
  "currentIndex abc_player = Num 0"
  "isPlaying abc_player"
  "lastFrameTime abc_player = 0"
  "animationFramePending abc_player"
  "scrubber_value abc_player = Num 0"
  "scrubber_max abc_player = 2"
  "goesImage_src abc_player = ''a.png''"
  "loadPromises abc_player = Fulfilled"
  "imageCache abc_player ''undefined'' = None"
  by (simp_all add: abc_player_def player_eval)

section \<open>View sync: the scrubber follows the index\<close>

lemma updateUI_sync: "scrubber_value (updateUI s i) = i \<and> currentIndex (updateUI s i) = i"
  by (simp add: updateUI_def displayFrame_def updateMagnifierSource_def Let_def
      split: option.splits prod.splits cache_value.splits)

lemma updateUI_scrubber_eq: "scrubber_value (updateUI s i) = currentIndex (updateUI s i)"
  by (simp add: updateUI_sync)

lemma stopAnimation_sync:
  "scrubber_value (stopAnimation s) = scrubber_value s"
  "currentIndex (stopAnimation s) = currentIndex s"
  by (simp_all add: stopAnimation_def)

lemma togglePlayPause_sync:
  "scrubber_value (togglePlayPause s now) = scrubber_value s"
  "currentIndex (togglePlayPause s now) = currentIndex s"
  by (simp_all add: togglePlayPause_def stopAnimation_def startAnimation_def)

lemma load_succeeded_sync:
  "scrubber_value (load_succeeded s now) = currentIndex (load_succeeded s now)"
  by (simp add: load_succeeded_def Let_def togglePlayPause_sync updateUI_sync)

lemma runAnimationLoop_sync:
  "scrubber_value s = currentIndex s \<Longrightarrow>
   scrubber_value (runAnimationLoop fps s t) = currentIndex (runAnimationLoop fps s t)"
  by (simp add: runAnimationLoop_def Let_def updateUI_sync)

lemma ui_step_sync:
  "scrubber_value s = currentIndex s \<Longrightarrow>
   scrubber_value (ui_step fps s e) = currentIndex (ui_step fps s e)"
  by (cases e)
     (simp_all add: ui_step_def togglePlayPause_sync prevFrame_def nextFrame_def
        handleScrubberInput_def Let_def updateUI_sync runAnimationLoop_sync)

lemma ui_run_sync:
  "scrubber_value s = currentIndex s \<Longrightarrow>
   scrubber_value (ui_run fps s es) = currentIndex (ui_run fps s es)"
  unfolding ui_run_def
  by (induction es arbitrary: s) (simp_all add: ui_step_sync)

lemma load_step_sync:
  "loadPromises s = Fulfilled \<longrightarrow> scrubber_value s = currentIndex s \<Longrightarrow>
   loadPromises (load_step s e) = Fulfilled \<longrightarrow>
     scrubber_value (load_step s e) = currentIndex (load_step s e)"
  by (cases e)
     (auto simp add: load_step_def img_onload_def img_onerror_def load_failed_def Let_def
        load_succeeded_sync)

lemma load_run_sync:
  "loadPromises s = Fulfilled \<longrightarrow> scrubber_value s = currentIndex s \<Longrightarrow>
   loadPromises (load_run s es) = Fulfilled \<longrightarrow>
     scrubber_value (load_run s es) = currentIndex (load_run s es)"
  unfolding load_run_def
proof (induction es arbitrary: s)
  case Nil
  then show ?case by simp
next
  case (Cons e es)
  have "loadPromises (load_step s e) = Fulfilled \<longrightarrow>
     scrubber_value (load_step s e) = currentIndex (load_step s e)"
    using Cons.prems by (rule load_step_sync)
  then show ?case using Cons.IH by simp
qed

lemma fetchImages_not_fulfilled: "loadPromises (fetchImages initial_player r) \<noteq> Fulfilled"
  by (cases r) (simp_all add: fetchImages_def loadAllImages_def initial_player_def Let_def)

subsection \<open>The index stays a frame position\<close>

lemma js_rem_nonneg: "0 \<le> a \<Longrightarrow> 0 < n \<Longrightarrow> js_rem (Num a) n = Num (a mod n)"
  by (cases "a = 0") (simp_all add: js_rem_def)

lemma updateUI_frame:
  "imagePaths (updateUI s i) = imagePaths s"
  "scrubber_max (updateUI s i) = scrubber_max s"
  "isPlaying (updateUI s i) = isPlaying s"
  "lastFrameTime (updateUI s i) = lastFrameTime s"
  "animationFramePending (updateUI s i) = animationFramePending s"
  "loadPromises (updateUI s i) = loadPromises s"
  by (simp_all add: updateUI_def displayFrame_def updateMagnifierSource_def Let_def
      split: option.splits prod.splits cache_value.splits)

lemma updateUI_in_range:
  "0 \<le> i \<Longrightarrow> i < int (length (imagePaths s)) \<Longrightarrow>
   scrubber_max s = int (length (imagePaths s)) - 1 \<Longrightarrow> index_in_range (updateUI s (Num i))"
  by (simp add: index_in_range_def updateUI_frame updateUI_sync)

lemma stopAnimation_frame:
  "imagePaths (stopAnimation s) = imagePaths s"
  "scrubber_max (stopAnimation s) = scrubber_max s"
  "scrubber_value (stopAnimation s) = scrubber_value s"
  "currentIndex (stopAnimation s) = currentIndex s"
  by (simp_all add: stopAnimation_def)

lemma index_in_range_cong:
  "index_in_range s \<Longrightarrow> currentIndex s' = currentIndex s \<Longrightarrow> imagePaths s' = imagePaths s \<Longrightarrow>
   scrubber_max s' = scrubber_max s \<Longrightarrow> index_in_range s'"
  by (simp add: index_in_range_def)

lemma togglePlayPause_in_range:
  "index_in_range s \<Longrightarrow> index_in_range (togglePlayPause s now)"
  by (erule index_in_range_cong)
     (simp_all add: togglePlayPause_def stopAnimation_def startAnimation_def)

lemma index_in_rangeE:
  assumes "index_in_range s"
  obtains i where "currentIndex s = Num i" "0 \<le> i" "i < int (length (imagePaths s))"
    "scrubber_max s = int (length (imagePaths s)) - 1" "0 < int (length (imagePaths s))"
  using assms unfolding index_in_range_def by fastforce

lemma next_index_in_range:
  assumes "currentIndex s = Num i" "0 \<le> i" "i < int (length (imagePaths s))"
  shows "js_rem (js_add (currentIndex s) 1) (int (length (imagePaths s))) =
           Num ((i + 1) mod int (length (imagePaths s)))"
proof -
  have "0 \<le> i + 1" "0 < int (length (imagePaths s))" using assms by linarith+
  then have "js_rem (Num (i + 1)) (int (length (imagePaths s))) =
           Num ((i + 1) mod int (length (imagePaths s)))"
    by (rule js_rem_nonneg)
  then show ?thesis by (simp add: assms(1) js_add_def)
qed

lemma prev_index_in_range:
  assumes "currentIndex s = Num i" "0 \<le> i" "i < int (length (imagePaths s))"
  shows "js_rem (js_add (js_add (currentIndex s) (- 1)) (int (length (imagePaths s))))
           (int (length (imagePaths s))) =
           Num ((i - 1) mod int (length (imagePaths s)))"
proof -
  let ?n = "int (length (imagePaths s))"
  have "0 \<le> i - 1 + ?n" "0 < ?n" using assms by linarith+
  then have "js_rem (Num (i - 1 + ?n)) ?n = Num ((i - 1 + ?n) mod ?n)"
    by (rule js_rem_nonneg)
  then show ?thesis by (simp add: assms(1) js_add_def)
qed

lemma updateUI_mod_in_range:
  assumes "index_in_range s" "imagePaths s' = imagePaths s" "scrubber_max s' = scrubber_max s"
  shows "index_in_range (updateUI s' (Num (k mod int (length (imagePaths s)))))"
proof -
  from assms(1) obtain i where i: "scrubber_max s = int (length (imagePaths s)) - 1"
    "0 < int (length (imagePaths s))"
    by (rule index_in_rangeE)
  have "0 \<le> k mod int (length (imagePaths s'))"
    "k mod int (length (imagePaths s')) < int (length (imagePaths s'))"
    using i(2) assms(2) by (simp_all del: of_nat_0_less_iff)
  then have "index_in_range (updateUI s' (Num (k mod int (length (imagePaths s')))))"
    using i(1) assms(2,3) by (intro updateUI_in_range) simp_all
  then show ?thesis by (simp add: assms(2))
qed

lemma prevFrame_in_range: "index_in_range s \<Longrightarrow> index_in_range (prevFrame s)"
proof -
  assume a: "index_in_range s"
  then obtain i where i: "currentIndex s = Num i" "0 \<le> i" "i < int (length (imagePaths s))"
    by (rule index_in_rangeE)
  have "index_in_range (updateUI (stopAnimation s) (Num ((i - 1) mod int (length (imagePaths s)))))"
    using a by (rule updateUI_mod_in_range) (simp_all add: stopAnimation_frame)
  then show ?thesis
    using prev_index_in_range [of "stopAnimation s" i] i
    by (simp add: prevFrame_def Let_def stopAnimation_frame)
qed

lemma nextFrame_in_range: "index_in_range s \<Longrightarrow> index_in_range (nextFrame s)"
proof -
  assume a: "index_in_range s"
  then obtain i where i: "currentIndex s = Num i" "0 \<le> i" "i < int (length (imagePaths s))"
    by (rule index_in_rangeE)
  have "index_in_range (updateUI (stopAnimation s) (Num ((i + 1) mod int (length (imagePaths s)))))"
    using a by (rule updateUI_mod_in_range) (simp_all add: stopAnimation_frame)
  then show ?thesis
    using next_index_in_range [of "stopAnimation s" i] i
    by (simp add: nextFrame_def Let_def stopAnimation_frame)
qed

lemma runAnimationLoop_in_range:
  "index_in_range s \<Longrightarrow> index_in_range (runAnimationLoop fps s t)"
proof -
  assume a: "index_in_range s"
  then obtain i where i: "currentIndex s = Num i" "0 \<le> i" "i < int (length (imagePaths s))"
    by (rule index_in_rangeE)
  have "index_in_range (updateUI (s\<lparr>lastFrameTime := t\<rparr>)
          (Num ((i + 1) mod int (length (imagePaths s)))))"
    using a by (rule updateUI_mod_in_range) simp_all
  then have "index_in_range (updateUI (s\<lparr>lastFrameTime := t\<rparr>)
          (js_rem (js_add (currentIndex s) 1) (int (length (imagePaths s)))))"
    using next_index_in_range [of s i] i by simp
  then have "index_in_range (if isPlaying s \<and> t - lastFrameTime s \<ge> currentFrameInterval fps s
      then updateUI (s\<lparr>lastFrameTime := t\<rparr>)
          (js_rem (js_add (currentIndex s) 1) (int (length (imagePaths s)))) else s)"
    using a by simp
  then show ?thesis
    by (rule index_in_range_cong) (simp_all add: runAnimationLoop_def Let_def updateUI_frame)
qed

lemma handleScrubberInput_in_range:
  assumes "index_in_range s" "0 \<le> v" "v \<le> scrubber_max s"
  shows "index_in_range (handleScrubberInput (s\<lparr> scrubber_value := Num v \<rparr>))"
proof -
  from assms(1) obtain i where i: "scrubber_max s = int (length (imagePaths s)) - 1"
    by (rule index_in_rangeE)
  have "index_in_range (updateUI (stopAnimation (s\<lparr> scrubber_value := Num v \<rparr>)) (Num v))"
    using assms(2,3) i by (intro updateUI_in_range) (simp_all add: stopAnimation_frame)
  then show ?thesis
    by (simp add: handleScrubberInput_def Let_def stopAnimation_frame)
qed

lemma ui_step_in_range:
  "index_in_range s \<Longrightarrow> within_scrubber_range s e \<Longrightarrow> index_in_range (ui_step fps s e)"
  by (cases e)
     (simp_all add: ui_step_def within_scrubber_range_def togglePlayPause_in_range
        prevFrame_in_range nextFrame_in_range handleScrubberInput_in_range
        runAnimationLoop_in_range)

lemma ui_step_frame:
  "imagePaths (ui_step fps s e) = imagePaths s"
  "scrubber_max (ui_step fps s e) = scrubber_max s"
  by (cases e; simp add: ui_step_def togglePlayPause_def startAnimation_def stopAnimation_def
        prevFrame_def nextFrame_def handleScrubberInput_def runAnimationLoop_def
        Let_def updateUI_frame)+

lemma within_scrubber_range_cong:
  "scrubber_max s' = scrubber_max s \<Longrightarrow> within_scrubber_range s' e = within_scrubber_range s e"
  by (simp add: within_scrubber_range_def split: ui_event.splits)

lemma ui_run_in_range:
  "index_in_range s \<Longrightarrow> \<forall>e\<in>set es. within_scrubber_range s e \<Longrightarrow>
   index_in_range (ui_run fps s es)"
  unfolding ui_run_def
proof (induction es arbitrary: s)
  case Nil
  then show ?case by simp
next
  case (Cons e es)
  have 1: "index_in_range (ui_step fps s e)"
    using Cons.prems by (simp add: ui_step_in_range)
  have 2: "\<forall>x\<in>set es. within_scrubber_range (ui_step fps s e) x"
    using Cons.prems(2) by (simp add: within_scrubber_range_cong [OF ui_step_frame(2)])
  show ?case using Cons.IH [OF 1 2] by simp
qed

lemma load_succeeded_in_range:
  "imagePaths s \<noteq> [] \<Longrightarrow> index_in_range (load_succeeded s now)"
proof -
  assume a: "imagePaths s \<noteq> []"
  let ?s2 = "s\<lparr> loadingMessage_shown := False, goesImage_shown := True, controls_shown := True,
       scrubber_max := int (length (imagePaths s)) - 1, scrubber_shown := True \<rparr>"
  have "index_in_range (updateUI ?s2 (Num 0))"
    using a by (intro updateUI_in_range) simp_all
  then have "index_in_range ((updateUI ?s2 (Num 0))\<lparr> isPlaying := False \<rparr>)"
    by (rule index_in_range_cong) simp_all
  then have "index_in_range (togglePlayPause ((updateUI ?s2 (Num 0))\<lparr> isPlaying := False \<rparr>) now)"
    by (rule togglePlayPause_in_range)
  then show ?thesis by (simp add: load_succeeded_def Let_def)
qed

lemma load_step_in_range:
  "loadPromises s = Fulfilled \<longrightarrow> index_in_range s \<Longrightarrow>
   loadPromises (load_step s e) = Fulfilled \<longrightarrow> index_in_range (load_step s e)"
proof (cases e)
  case (ImageLoaded path img now)
  assume a: "loadPromises s = Fulfilled \<longrightarrow> index_in_range s"
  let ?s3 = "s\<lparr> loadedCount := loadedCount s + 1,
      loadingMessage_text := LoadingImage (loadedCount s + 1) (length (imagePaths s)),
      imageCache := (imageCache s)(path \<mapsto> img) \<rparr>"
  show ?thesis
  proof (cases "loadPromises s = Pending \<and> loadedCount s + 1 = length (imagePaths s)")
    case True
    then have "imagePaths (?s3\<lparr> loadPromises := Fulfilled \<rparr>) \<noteq> []" by auto
    then have "index_in_range (load_succeeded (?s3\<lparr> loadPromises := Fulfilled \<rparr>) now)"
      by (rule load_succeeded_in_range)
    then show ?thesis using True ImageLoaded
      by (simp add: load_step_def img_onload_def Let_def)
  next
    case False
    have "loadPromises s = Fulfilled \<longrightarrow> index_in_range ?s3"
      using a by (auto elim!: index_in_range_cong)
    then show ?thesis using False ImageLoaded
      by (auto simp add: load_step_def img_onload_def Let_def)
  qed
next
  case (ImageError path)
  assume "loadPromises s = Fulfilled \<longrightarrow> index_in_range s"
  then show ?thesis using ImageError
    by (auto simp add: load_step_def img_onerror_def load_failed_def)
qed

lemma load_run_in_range:
  "loadPromises s = Fulfilled \<longrightarrow> index_in_range s \<Longrightarrow>
   loadPromises (load_run s es) = Fulfilled \<longrightarrow> index_in_range (load_run s es)"
  unfolding load_run_def
proof (induction es arbitrary: s)
  case Nil
  then show ?case by simp
next
  case (Cons e es)
  have "loadPromises (load_step s e) = Fulfilled \<longrightarrow> index_in_range (load_step s e)"
    using Cons.prems by (rule load_step_in_range)
  then show ?case using Cons.IH by simp
qed

text \<open>
  C2.  Once the loader has completed successfully, the scrubber's value equals
  \<open>currentIndex\<close> after the load and after every later operation, whatever the sequence
  of button clicks, scrubber changes and frame callbacks: each of them goes through
  \<open>updateUI\<close>, which writes both.  As long as the scrubber only reports values between
  its bounds, the value written back is itself between the bounds \<open>0\<close> and \<open>N - 1\<close>.
\<close>

theorem scrubber_equals_currentIndex:
  assumes "s = load_run (fetchImages initial_player r) levs"
    and "loadPromises s = Fulfilled"
  shows "scrubber_value (ui_run fps s es) = currentIndex (ui_run fps s es) \<and>
         ((\<forall>e\<in>set es. within_scrubber_range s e) \<longrightarrow> index_in_range (ui_run fps s es))"
proof -
  have start: "loadPromises (fetchImages initial_player r) \<noteq> Fulfilled"
    by (rule fetchImages_not_fulfilled)
  have "loadPromises s = Fulfilled \<longrightarrow> scrubber_value s = currentIndex s"
    unfolding assms(1) using start by (intro load_run_sync) simp
  with assms(2) have "scrubber_value s = currentIndex s" by simp
  then have 1: "scrubber_value (ui_run fps s es) = currentIndex (ui_run fps s es)"
    by (rule ui_run_sync)
  have "loadPromises s = Fulfilled \<longrightarrow> index_in_range s"
    unfolding assms(1) using start by (intro load_run_in_range) simp
  with assms(2) have "index_in_range s" by simp
  then have 2: "(\<forall>e\<in>set es. within_scrubber_range s e) \<longrightarrow> index_in_range (ui_run fps s es)"
    by (simp add: ui_run_in_range)
  from 1 2 show ?thesis by simp
qed

theorem scrubber_equals_currentIndex_witness:
  "loadPromises abc_player = Fulfilled \<and>
   list_all (within_scrubber_range abc_player)
     [AnimationFrame 200, ClickNext, ScrubberChange 0, ClickPrev] \<and>
   scrubber_value (ui_run 5 abc_player [AnimationFrame 200, ClickNext, ScrubberChange 0, ClickPrev])
     = currentIndex (ui_run 5 abc_player [AnimationFrame 200, ClickNext, ScrubberChange 0, ClickPrev]) \<and>
   index_in_range (ui_run 5 abc_player [AnimationFrame 200, ClickNext, ScrubberChange 0, ClickPrev])"
proof -
  have h1: "abc_player =
     load_run (fetchImages initial_player (Manifest [''a.png'', ''b.png'', ''c.png'']))
       [ImageLoaded ''b.png'' (picture ''b.png'') 0,
        ImageLoaded ''a.png'' (picture ''a.png'') 0,
        ImageLoaded ''c.png'' (picture ''c.png'') 0]"
    by (simp only: abc_player_def)
  have h2: "loadPromises abc_player = Fulfilled"
    by (rule abc_player_fields)
  have h3: "\<forall>e\<in>set [AnimationFrame 200, ClickNext, ScrubberChange 0, ClickPrev].
      within_scrubber_range abc_player e"
    by (simp add: within_scrubber_range_def abc_player_fields)
  show ?thesis
    using scrubber_equals_currentIndex [OF h1 h2, of 5
        "[AnimationFrame 200, ClickNext, ScrubberChange 0, ClickPrev]"] h2 h3
    by (simp only: list_all_iff simp_thms)
qed

lemma abc_player_events_end_at_last_frame:
  "currentIndex (ui_run 5 abc_player [AnimationFrame 200, ClickNext, ScrubberChange 0, ClickPrev])
     = Num 2"
  by (simp add: ui_run_def ui_step_def runAnimationLoop_def currentFrameInterval_def
      FRAME_INTERVAL_MS_def LAST_FRAME_HOLD_TIME_MS_def nextFrame_def prevFrame_def
      handleScrubberInput_def js_rem_def js_add_def abc_player_def player_eval)

section \<open>View sync: frames without a cache entry\<close>

lemma imageCache_get_Absent:
  "imageCache_get s key = Absent \<longleftrightarrow>
     imageCache s key = None \<and> key \<notin> set Object_prototype_members"
  by (simp add: imageCache_get_def split: option.splits)


lemma displayFrame_Absent:
  "imageCache_get s (property_key (js_index (imagePaths s) index)) = Absent \<Longrightarrow>
   displayFrame s index = s"
  by (simp add: displayFrame_def)


text \<open>
  An index outside \<open>[0, N)\<close> reads an undefined path and is looked up under the key
  \<open>undefined\<close>: with a frame cached under that name, \<open>displayFrame 7\<close> on a two-frame page
  replaces the displayed source as well.
\<close>

lemma displayFrame_out_of_range_changes_source:
  "js_index (imagePaths undefined_frame_player) (Num 7) = None \<and>
   goesImage_src undefined_frame_player = ''a.png'' \<and>
   goesImage_src (displayFrame undefined_frame_player (Num 7)) = ''undefined''"
  by (simp add: undefined_frame_player_def player_eval)



section \<open>Loader: when the engine starts\<close>

lemma updateUI_loader_fields:
  "loadedCount (updateUI s i) = loadedCount s"
  "goesImage_shown (updateUI s i) = goesImage_shown s"
  "scrubber_shown (updateUI s i) = scrubber_shown s"
  "controls_shown (updateUI s i) = controls_shown s"
  "loadingMessage_shown (updateUI s i) = loadingMessage_shown s"
  "loadingMessage_text (updateUI s i) = loadingMessage_text s"
  by (simp_all add: updateUI_def displayFrame_def updateMagnifierSource_def Let_def
      split: option.splits prod.splits cache_value.splits)

lemma load_succeeded_fields:
  "loadPromises (load_succeeded s now) = loadPromises s"
  "imagePaths (load_succeeded s now) = imagePaths s"
  "loadedCount (load_succeeded s now) = loadedCount s"
  by (simp_all add: load_succeeded_def Let_def togglePlayPause_def startAnimation_def
      stopAnimation_def updateUI_frame updateUI_loader_fields)

lemma load_succeeded_started:
  assumes "imagePaths s \<noteq> []"
  shows "isPlaying (load_succeeded s now)"
    and "animationFramePending (load_succeeded s now)"
    and "lastFrameTime (load_succeeded s now) = now"
    and "goesImage_shown (load_succeeded s now)"
    and "scrubber_shown (load_succeeded s now)"
    and "\<not> loadingMessage_shown (load_succeeded s now)"
  using assms
  by (simp_all add: load_succeeded_def Let_def togglePlayPause_def startAnimation_def
      updateUI_frame updateUI_loader_fields)

lemma load_step_frame:
  "imagePaths (load_step s e) = imagePaths s"
  "loadedCount (load_step s e) = loadedCount s + (if is_loaded e then 1 else 0)"
  by (cases e; simp add: load_step_def img_onload_def img_onerror_def load_failed_def Let_def
        load_succeeded_fields)+

lemma load_step_promise:
  "loadPromises (load_step s e) =
     (case e of
        ImageLoaded path img now \<Rightarrow>
          if loadPromises s = Pending \<and> loadedCount s + 1 = length (imagePaths s)
          then Fulfilled else loadPromises s
      | ImageError path \<Rightarrow> if loadPromises s = Pending then Rejected else loadPromises s)"
  by (cases e)
     (simp_all add: load_step_def img_onload_def img_onerror_def load_failed_def Let_def
        load_succeeded_fields)

lemma load_step_engine:
  assumes "animationFramePending s \<longleftrightarrow> loadPromises s = Fulfilled"
    and "loadPromises s = Fulfilled \<longrightarrow> isPlaying s"
  shows "(animationFramePending (load_step s e) \<longleftrightarrow> loadPromises (load_step s e) = Fulfilled) \<and>
         (loadPromises (load_step s e) = Fulfilled \<longrightarrow> isPlaying (load_step s e))"
proof (cases e)
  case (ImageLoaded path img now)
  let ?s3 = "s\<lparr> loadedCount := loadedCount s + 1,
      loadingMessage_text := LoadingImage (loadedCount s + 1) (length (imagePaths s)),
      imageCache := (imageCache s)(path \<mapsto> img) \<rparr>"
  show ?thesis
  proof (cases "loadPromises s = Pending \<and> loadedCount s + 1 = length (imagePaths s)")
    case True
    then have ne: "imagePaths (?s3\<lparr> loadPromises := Fulfilled \<rparr>) \<noteq> []" by auto
    have step: "load_step s e = load_succeeded (?s3\<lparr> loadPromises := Fulfilled \<rparr>) now"
      using True ImageLoaded by (simp add: load_step_def img_onload_def Let_def)
    show ?thesis
      unfolding step
      using load_succeeded_started(1,2) [OF ne, of now]
      by (simp add: load_succeeded_fields)
  next
    case False
    then have step: "load_step s e = ?s3"
      using ImageLoaded by (auto simp add: load_step_def img_onload_def Let_def)
    show ?thesis unfolding step using assms by simp
  qed
next
  case (ImageError path)
  then show ?thesis
    using assms by (auto simp add: load_step_def img_onerror_def load_failed_def)
qed

lemma load_run_engine:
  assumes "animationFramePending s \<longleftrightarrow> loadPromises s = Fulfilled"
    and "loadPromises s = Fulfilled \<longrightarrow> isPlaying s"
  shows "(animationFramePending (load_run s es) \<longleftrightarrow> loadPromises (load_run s es) = Fulfilled) \<and>
         (loadPromises (load_run s es) = Fulfilled \<longrightarrow> isPlaying (load_run s es))"
  using assms unfolding load_run_def
proof (induction es arbitrary: s)
  case Nil
  then show ?case by simp
next
  case (Cons e es)
  from load_step_engine [OF Cons.prems, of e]
  have "animationFramePending (load_step s e) \<longleftrightarrow> loadPromises (load_step s e) = Fulfilled"
    and "loadPromises (load_step s e) = Fulfilled \<longrightarrow> isPlaying (load_step s e)"
    by simp_all
  then show ?case using Cons.IH [of "load_step s e"] by simp
qed

lemma fetchImages_fields:
  "\<not> animationFramePending (fetchImages initial_player r)"
  "loadPromises (fetchImages initial_player r) = Pending"
  "loadedCount (fetchImages initial_player r) = 0"
  "imagePaths (fetchImages initial_player r) = (case r of FetchFailed \<Rightarrow> [] | Manifest ps \<Rightarrow> ps)"
  by (cases r; simp add: fetchImages_def loadAllImages_def initial_player_def Let_def)+

text \<open>
  C4, as the claim states it, fails: before anything is loaded \<open>isPlaying\<close> is not false,
  the script initialises it to true.
\<close>

theorem isPlaying_initially_true:
  "loadPromises initial_player = Pending \<and> \<not> (isPlaying initial_player = False)"
  by (simp add: initial_player_def)

text \<open>
  C4, amended.  Before the load completes the engine is not running, in the sense that
  no frame callback is scheduled; the flag \<open>isPlaying\<close> itself is already true.  Whatever
  the manifest and however the image loads complete, a frame callback is scheduled exactly
  when the loader has seen all images load, and the engine is then playing.
\<close>

theorem engine_starts_on_full_load:
  assumes "s = load_run (fetchImages initial_player r) levs"
  shows "isPlaying initial_player \<and> \<not> animationFramePending initial_player \<and>
         (animationFramePending s \<longleftrightarrow> loadPromises s = Fulfilled) \<and>
         (loadPromises s = Fulfilled \<longrightarrow> isPlaying s)"
proof -
  have "(animationFramePending s \<longleftrightarrow> loadPromises s = Fulfilled) \<and>
        (loadPromises s = Fulfilled \<longrightarrow> isPlaying s)"
    unfolding assms by (rule load_run_engine) (simp_all add: fetchImages_fields)
  then show ?thesis by (simp add: initial_player_def)
qed

theorem engine_starts_on_full_load_witness:
  "isPlaying initial_player \<and> \<not> animationFramePending initial_player \<and>
   loadPromises abc_player = Fulfilled \<and> animationFramePending abc_player \<and>
   isPlaying abc_player"
proof -
  have h1: "abc_player =
     load_run (fetchImages initial_player (Manifest [''a.png'', ''b.png'', ''c.png'']))
       [ImageLoaded ''b.png'' (picture ''b.png'') 0,
        ImageLoaded ''a.png'' (picture ''a.png'') 0,
        ImageLoaded ''c.png'' (picture ''c.png'') 0]"
    by (simp only: abc_player_def)
  have h2: "loadPromises abc_player = Fulfilled"
    by (rule abc_player_fields)
  show ?thesis
    using engine_starts_on_full_load [OF h1] h2 by blast
qed

subsection \<open>Full success and anything less\<close>

lemma load_run_append: "load_run s (es @ [e]) = load_step (load_run s es) e"
  by (simp add: load_run_def)

lemma load_run_frame:
  "imagePaths (load_run s es) = imagePaths s"
  "loadedCount (load_run s es) = loadedCount s + length (filter is_loaded es)"
  by (induction es rule: rev_induct) (simp_all add: load_run_append load_step_frame load_run_def)

lemma load_run_pending_while_short:
  assumes "loadPromises s = Pending" "list_all is_loaded es"
    and "loadedCount s + length es < length (imagePaths s)"
  shows "loadPromises (load_run s es) = Pending"
  using assms
proof (induction es rule: rev_induct)
  case Nil
  then show ?case by (simp add: load_run_def)
next
  case (snoc e es)
  then have p: "loadPromises (load_run s es) = Pending" by simp
  obtain path img now where e: "e = ImageLoaded path img now"
    using snoc.prems(2) by (cases e) simp_all
  have "loadedCount (load_run s es) + 1 < length (imagePaths (load_run s es))"
    using snoc.prems by (simp add: load_run_frame list_all_iff)
  then show ?case
    by (simp add: load_run_append load_step_promise e p)
qed

text \<open>When every image of a non-empty manifest loads, the loader completes.\<close>

lemma all_loaded_fulfils:
  assumes "paths \<noteq> []" "list_all is_loaded levs" "length levs = length paths"
  shows "loadPromises (load_run (fetchImages initial_player (Manifest paths)) levs) = Fulfilled"
proof -
  let ?s = "fetchImages initial_player (Manifest paths)"
  from assms obtain es e where levs: "levs = es @ [e]"
    by (cases levs rule: rev_cases) auto
  obtain path img now where e: "e = ImageLoaded path img now"
    using assms(2) levs by (cases e) simp_all
  have "loadPromises (load_run ?s es) = Pending"
    using assms levs by (intro load_run_pending_while_short) (simp_all add: fetchImages_fields)
  moreover have "loadedCount (load_run ?s es) + 1 = length (imagePaths (load_run ?s es))"
    using assms levs by (simp add: load_run_frame fetchImages_fields list_all_iff)
  ultimately show ?thesis
    by (simp add: levs load_run_append load_step_promise e)
qed

lemma load_step_fulfilled_count:
  "loadPromises s = Fulfilled \<longrightarrow> length (imagePaths s) \<le> loadedCount s \<Longrightarrow>
   loadPromises (load_step s e) = Fulfilled \<longrightarrow>
     length (imagePaths (load_step s e)) \<le> loadedCount (load_step s e)"
  by (cases e) (auto simp add: load_step_promise load_step_frame)

text \<open>A load in which fewer images arrive than the manifest lists never completes.\<close>

lemma fewer_loaded_not_fulfilled:
  assumes "length (filter is_loaded levs) < length (imagePaths (fetchImages initial_player r))"
  shows "loadPromises (load_run (fetchImages initial_player r) levs) \<noteq> Fulfilled"
proof -
  let ?s = "fetchImages initial_player r"
  have "loadPromises (load_run ?s levs) = Fulfilled \<longrightarrow>
          length (imagePaths (load_run ?s levs)) \<le> loadedCount (load_run ?s levs)"
  proof (induction levs rule: rev_induct)
    case Nil
    then show ?case by (simp add: load_run_def fetchImages_fields)
  next
    case (snoc e es)
    then show ?case unfolding load_run_append by (rule load_step_fulfilled_count)
  qed
  then show ?thesis using assms by (auto simp add: load_run_frame fetchImages_fields)
qed

lemma load_step_hidden:
  assumes "loadPromises (load_step s e) \<noteq> Fulfilled"
  shows "loadPromises s \<noteq> Fulfilled"
    and "goesImage_shown (load_step s e) = goesImage_shown s"
    and "scrubber_shown (load_step s e) = scrubber_shown s"
    and "controls_shown (load_step s e) = controls_shown s"
    and "loadingMessage_shown (load_step s e) = loadingMessage_shown s"
    and "goesImage_src (load_step s e) = goesImage_src s"
    and "currentIndex (load_step s e) = currentIndex s"
    and "animationFramePending (load_step s e) = animationFramePending s"
  using assms
  by (cases e;
      auto simp add: load_step_def img_onload_def img_onerror_def load_failed_def Let_def
        load_succeeded_fields split: if_splits)+

text \<open>
  The part of C5 that the loader keeps: as long as the load has not completed, the image,
  the controls and the scrubber keep the visibility they had, the loading message stays
  on the screen, no frame is displayed and no frame callback is scheduled.
\<close>

lemma unfinished_load_shows_nothing:
  assumes "loadPromises (load_run s es) \<noteq> Fulfilled"
  shows "goesImage_shown (load_run s es) = goesImage_shown s \<and>
         scrubber_shown (load_run s es) = scrubber_shown s \<and>
         controls_shown (load_run s es) = controls_shown s \<and>
         loadingMessage_shown (load_run s es) = loadingMessage_shown s \<and>
         goesImage_src (load_run s es) = goesImage_src s \<and>
         currentIndex (load_run s es) = currentIndex s \<and>
         animationFramePending (load_run s es) = animationFramePending s"
  using assms
proof (induction es rule: rev_induct)
  case Nil
  then show ?case by (simp add: load_run_def)
next
  case (snoc e es)
  from snoc.prems have a: "loadPromises (load_step (load_run s es) e) \<noteq> Fulfilled"
    by (simp add: load_run_append)
  from load_step_hidden [OF a] snoc.IH show ?case
    by (simp add: load_run_append)
qed

text \<open>
  C5 on the page \<open>ab_failed_player\<close>: \<open>a.png\<close> fails, which rejects the load and puts up the
  error message; when \<open>b.png\<close> arrives afterwards its \<open>onload\<close> handler still runs and
  replaces the error message by the progress text, over a load that stays rejected.
\<close>

theorem failed_load_message_overwritten:
  "loadingMessage_text
     (load_run (fetchImages initial_player (Manifest [''a.png'', ''b.png''])) [ImageError ''a.png''])
     = ErrorLoadingImages \<and>
   loadPromises ab_failed_player = Rejected \<and>
   loadingMessage_shown ab_failed_player \<and>
   loadingMessage_text ab_failed_player = LoadingImage 1 2"
  by (simp add: ab_failed_player_def player_eval)

section \<open>Playback engine: ticks and the loop\<close>

lemmas tick_eval =
  runAnimationLoop_def currentFrameInterval_def tick_advances_def FRAME_INTERVAL_MS_def
  LAST_FRAME_HOLD_TIME_MS_def js_rem_def js_add_def

lemma dwell_pos: "0 < fps \<Longrightarrow> 0 < dwell fps n j"
  by (simp add: dwell_def LAST_FRAME_HOLD_TIME_MS_def FRAME_INTERVAL_MS_def)

lemma loop_time_pos: "0 < fps \<Longrightarrow> 0 < k \<Longrightarrow> 0 < loop_time fps n j k"
proof (induction k arbitrary: j)
  case 0
  then show ?case by simp
next
  case (Suc k)
  have "0 \<le> loop_time fps n (Suc j mod n) k"
    using Suc.IH [of "Suc j mod n"] Suc.prems(1) by (cases k) simp_all
  then show ?case using dwell_pos [OF Suc.prems(1), of n j] by simp
qed

lemma currentFrameInterval_dwell:
  "currentIndex s = Num (int j) \<Longrightarrow>
   currentFrameInterval fps s = dwell fps (length (imagePaths s)) j"
  by (auto simp add: currentFrameInterval_def dwell_def Let_def)

lemma tick_holds:
  assumes "isPlaying s" "t - lastFrameTime s < currentFrameInterval fps s"
  shows "currentIndex (runAnimationLoop fps s t) = currentIndex s"
    and "lastFrameTime (runAnimationLoop fps s t) = lastFrameTime s"
    and "isPlaying (runAnimationLoop fps s t)"
    and "imagePaths (runAnimationLoop fps s t) = imagePaths s"
    and "\<not> tick_advances fps s t"
  using assms by (simp_all add: runAnimationLoop_def tick_advances_def Let_def)

lemma tick_moves:
  assumes "isPlaying s" "currentIndex s = Num (int j)" "j < length (imagePaths s)"
    and "t - lastFrameTime s \<ge> currentFrameInterval fps s"
  shows "currentIndex (runAnimationLoop fps s t) = Num (int (Suc j mod length (imagePaths s)))"
    and "lastFrameTime (runAnimationLoop fps s t) = t"
    and "isPlaying (runAnimationLoop fps s t)"
    and "imagePaths (runAnimationLoop fps s t) = imagePaths s"
    and "tick_advances fps s t"
proof -
  have "js_rem (js_add (currentIndex s) 1) (int (length (imagePaths s))) =
          Num ((int j + 1) mod int (length (imagePaths s)))"
    using assms(2,3) by (intro next_index_in_range) simp_all
  also have "(int j + 1) mod int (length (imagePaths s)) = int (Suc j mod length (imagePaths s))"
    by (simp add: zmod_int add.commute)
  finally have nxt: "js_rem (js_add (currentIndex s) 1) (int (length (imagePaths s))) =
          Num (int (Suc j mod length (imagePaths s)))" .
  show "currentIndex (runAnimationLoop fps s t) = Num (int (Suc j mod length (imagePaths s)))"
    using assms(1,4) nxt by (simp add: runAnimationLoop_def Let_def updateUI_sync)
  show "lastFrameTime (runAnimationLoop fps s t) = t"
    using assms(1,4) by (simp add: runAnimationLoop_def Let_def updateUI_frame)
  show "isPlaying (runAnimationLoop fps s t)"
    using assms(1,4) by (simp add: runAnimationLoop_def Let_def updateUI_frame)
  show "imagePaths (runAnimationLoop fps s t) = imagePaths s"
    using assms(1,4) by (simp add: runAnimationLoop_def Let_def updateUI_frame)
  show "tick_advances fps s t"
    using assms(1,4) by (simp add: tick_advances_def)
qed

text \<open>
  The run of the callback over an increasing sequence of instants that contains the
  instants of the next \<open>m\<close> thresholds and does not go beyond the last of them.
\<close>

lemma ticks_through_thresholds:
  assumes "0 < fps"
    and "isPlaying s" "currentIndex s = Num (int j)" "j < length (imagePaths s)"
    and "sorted_wrt (<) ts"
    and "\<forall>k\<in>{1..m}. lastFrameTime s + loop_time fps (length (imagePaths s)) j k \<in> set ts"
    and "\<forall>t\<in>set ts. t \<le> lastFrameTime s + loop_time fps (length (imagePaths s)) j m"
  shows "count_advances fps s ts = m \<and>
         currentIndex (run_ticks fps s ts) = Num (int ((j + m) mod length (imagePaths s))) \<and>
         lastFrameTime (run_ticks fps s ts)
           = lastFrameTime s + loop_time fps (length (imagePaths s)) j m"
  using assms(2-)
proof (induction ts arbitrary: s j m)
  case Nil
  then have "m = 0" by (cases m) auto
  then show ?case using Nil by simp
next
  case (Cons t ts)
  let ?n = "length (imagePaths s)"
  let ?L = "lastFrameTime s"
  let ?s' = "runAnimationLoop fps s t"
  have cfi: "currentFrameInterval fps s = dwell fps ?n j"
    using Cons.prems(2) by (rule currentFrameInterval_dwell)
  have later: "\<forall>u\<in>set ts. t < u" and sorted: "sorted_wrt (<) ts"
    using Cons.prems(4) by simp_all
  show ?case
  proof (cases "t - ?L < dwell fps ?n j")
    case True
    note hold = tick_holds [OF Cons.prems(1), of t fps, unfolded cfi, OF True]
    have in_ts: "\<forall>k\<in>{1..m}. lastFrameTime ?s' + loop_time fps (length (imagePaths ?s')) j k \<in> set ts"
    proof
      fix k assume k: "k \<in> {1..m}"
      then obtain k' where k': "k = Suc k'" by (cases k) auto
      have "0 \<le> loop_time fps ?n (Suc j mod ?n) k'"
        using loop_time_pos [OF assms(1), of k' ?n "Suc j mod ?n"] by (cases k') simp_all
      then have "t < ?L + loop_time fps ?n j k"
        using True by (simp add: k')
      moreover have "?L + loop_time fps ?n j k \<in> set (t # ts)"
        using Cons.prems(5) k by blast
      ultimately show "lastFrameTime ?s' + loop_time fps (length (imagePaths ?s')) j k \<in> set ts"
        by (auto simp add: hold)
    qed
    have bound: "\<forall>u\<in>set ts. u \<le> lastFrameTime ?s' + loop_time fps (length (imagePaths ?s')) j m"
      using Cons.prems(6) by (simp add: hold)
    have idx: "currentIndex ?s' = Num (int j)" "j < length (imagePaths ?s')"
      using Cons.prems(2,3) by (simp_all add: hold)
    from Cons.IH [OF hold(3) idx sorted in_ts bound]
    show ?thesis by (simp add: hold)
  next
    case False
    then have ge: "t - ?L \<ge> currentFrameInterval fps s" by (simp add: cfi)
    note move = tick_moves [OF Cons.prems(1,2,3) ge]
    have "t \<le> ?L + loop_time fps ?n j m" using Cons.prems(6) by simp
    then have "m \<noteq> 0" using False dwell_pos [OF assms(1), of ?n j] by (cases m) auto
    then obtain m' where m: "m = Suc m'" by (cases m) auto
    have "?L + loop_time fps ?n j 1 \<in> set (t # ts)"
      using Cons.prems(5) m by (simp del: loop_time.simps)
    then have "?L + dwell fps ?n j \<in> set (t # ts)" by simp
    moreover have "?L + dwell fps ?n j \<le> t" using False by simp
    ultimately have t: "t = ?L + dwell fps ?n j" using later by fastforce
    then have td: "dwell fps ?n j = t - ?L" by simp
    have in_ts: "\<forall>k\<in>{1..m'}. lastFrameTime ?s' +
        loop_time fps (length (imagePaths ?s')) (Suc j mod ?n) k \<in> set ts"
    proof
      fix k assume k: "k \<in> {1..m'}"
      then have "0 < loop_time fps ?n (Suc j mod ?n) k"
        using loop_time_pos [OF assms(1)] by simp
      then have "t < ?L + loop_time fps ?n j (Suc k)" by (simp add: td)
      moreover have "?L + loop_time fps ?n j (Suc k) \<in> set (t # ts)"
        using Cons.prems(5) k m by (simp del: loop_time.simps)
      ultimately have "?L + loop_time fps ?n j (Suc k) \<in> set ts" by auto
      then show "lastFrameTime ?s' + loop_time fps (length (imagePaths ?s')) (Suc j mod ?n) k
                   \<in> set ts"
        by (simp add: move td)
    qed
    have bound: "\<forall>u\<in>set ts. u \<le> lastFrameTime ?s' +
        loop_time fps (length (imagePaths ?s')) (Suc j mod ?n) m'"
      using Cons.prems(6) by (simp add: move td m)
    have "0 < ?n" using Cons.prems(3) by linarith
    then have "Suc j mod ?n < ?n" by (rule mod_less_divisor)
    then have idx: "currentIndex ?s' = Num (int (Suc j mod ?n))"
      "Suc j mod ?n < length (imagePaths ?s')"
      by (simp_all only: move)
    have "(Suc j mod ?n + m') mod ?n = (Suc j + m') mod ?n"
      by (rule mod_add_left_eq)
    then have wrap: "(Suc j mod ?n + m') mod ?n = Suc (j + m') mod ?n" by simp
    from Cons.IH [OF move(3) idx sorted in_ts bound]
    show ?thesis
      by (simp add: move m td wrap)
  qed
qed

subsection \<open>The length of one loop\<close>

lemma loop_time_before_last:
  "j + m < n \<Longrightarrow> loop_time fps n j m = real m * FRAME_INTERVAL_MS fps"
proof (induction m arbitrary: j)
  case 0
  then show ?case by simp
next
  case (Suc m)
  then have "Suc j < n" "Suc j + m < n" by simp_all
  then show ?case
    using Suc.IH [of "Suc j"] by (simp add: dwell_def algebra_simps)
qed

lemma loop_time_add:
  "j < n \<Longrightarrow> loop_time fps n j (a + b) = loop_time fps n j a + loop_time fps n ((j + a) mod n) b"
proof (induction a arbitrary: j)
  case 0
  then show ?case by simp
next
  case (Suc a)
  then have "0 < n" by linarith
  then have "Suc j mod n < n" by (rule mod_less_divisor)
  then have "loop_time fps n (Suc j mod n) (a + b) =
      loop_time fps n (Suc j mod n) a + loop_time fps n ((Suc j mod n + a) mod n) b"
    by (rule Suc.IH)
  moreover have "(Suc j mod n + a) mod n = (Suc j + a) mod n"
    by (rule mod_add_left_eq)
  ultimately show ?case by simp
qed

lemma loop_time_full:
  assumes "j < n"
  shows "loop_time fps n j n = real (n - 1) * FRAME_INTERVAL_MS fps + LAST_FRAME_HOLD_TIME_MS"
proof -
  let ?a = "n - 1 - j"
  have n: "n = ?a + Suc j" using assms by simp
  have last: "(j + ?a) mod n = n - 1" using assms by simp
  have "loop_time fps n j (?a + Suc j) =
          loop_time fps n j ?a + loop_time fps n ((j + ?a) mod n) (Suc j)"
    using assms by (rule loop_time_add)
  also have "loop_time fps n j ?a = real ?a * FRAME_INTERVAL_MS fps"
    using assms by (intro loop_time_before_last) simp
  also have "loop_time fps n ((j + ?a) mod n) (Suc j) =
          LAST_FRAME_HOLD_TIME_MS + loop_time fps n 0 j"
    using assms unfolding last by (simp add: dwell_def)
  also have "loop_time fps n 0 j = real j * FRAME_INTERVAL_MS fps"
    using assms by (intro loop_time_before_last) simp
  finally have eq: "loop_time fps n j (?a + Suc j) =
      real ?a * FRAME_INTERVAL_MS fps + (LAST_FRAME_HOLD_TIME_MS + real j * FRAME_INTERVAL_MS fps)" .
  have "real ?a + real j = real (n - 1)" using assms by simp
  then have "real (n - 1) * FRAME_INTERVAL_MS fps =
      real ?a * FRAME_INTERVAL_MS fps + real j * FRAME_INTERVAL_MS fps"
    by (simp only: flip: distrib_right)
  with eq have "loop_time fps n j (?a + Suc j) =
      real (n - 1) * FRAME_INTERVAL_MS fps + LAST_FRAME_HOLD_TIME_MS"
    by (simp only: add.assoc add.commute add.left_commute)
  then show ?thesis using n by (simp only:)
qed

subsection \<open>The claim and what holds of it\<close>

text \<open>
  C1, as the claim states it, fails.  On the three-frame page at 5 fps the loop takes
  \<open>2 * 200 + 1000 = 1400\<close> ms.  With the callback running every 150 ms over these
  1400 ms, the first advance happens at 300 ms and the second at 600 ms, each one late,
  and the hold of the last frame has not elapsed by 1400 ms: two advances, and the index
  is 2, not back at 0.
\<close>

theorem loop_not_closed_by_150ms_ticks:
  "currentIndex abc_player = Num 0 \<and> lastFrameTime abc_player = 0 \<and>
   sorted_wrt (<) ticks_150 \<and> last ticks_150 = 1400 \<and>
   count_advances 5 abc_player ticks_150 = 2 \<and>
   currentIndex (run_ticks 5 abc_player ticks_150) = Num 2"
  by (simp add: ticks_150_def tick_eval abc_player_def player_eval)

text \<open>
  C1, amended.  While the engine is playing with \<open>currentIndex = i\<close> among \<open>N\<close> frames, a tick
  advances the index to \<open>(i + 1) mod N\<close> exactly when the time since the last advance has
  reached the threshold of frame \<open>i\<close> (the hold on the last frame, \<open>1000 / fps\<close> otherwise),
  and leaves it alone otherwise.  If the ticks are an increasing sequence of instants that
  contains the instant at which each of the next \<open>N\<close> thresholds is reached, and ends
  within \<open>(N - 1) * frameInterval + holdDuration\<close> of the start, the run advances the index
  exactly \<open>N\<close> times and brings it back to \<open>i\<close>.
\<close>

theorem full_loop_closure:
  assumes "0 < fps"
    and "isPlaying s" "currentIndex s = Num (int i)" "i < length (imagePaths s)"
    and "sorted_wrt (<) ts"
    and "\<forall>k\<in>{1..length (imagePaths s)}.
           lastFrameTime s + loop_time fps (length (imagePaths s)) i k \<in> set ts"
    and "\<forall>t\<in>set ts. t \<le> lastFrameTime s +
           (real (length (imagePaths s) - 1) * FRAME_INTERVAL_MS fps + LAST_FRAME_HOLD_TIME_MS)"
  shows "currentIndex (runAnimationLoop fps s t) =
           (if t - lastFrameTime s \<ge> dwell fps (length (imagePaths s)) i
            then Num (int ((i + 1) mod length (imagePaths s))) else Num (int i)) \<and>
         count_advances fps s ts = length (imagePaths s) \<and>
         currentIndex (run_ticks fps s ts) = Num (int i)"
proof -
  let ?n = "length (imagePaths s)"
  have cfi: "currentFrameInterval fps s = dwell fps ?n i"
    using assms(3) by (rule currentFrameInterval_dwell)
  have one: "currentIndex (runAnimationLoop fps s t) =
           (if t - lastFrameTime s \<ge> dwell fps ?n i
            then Num (int ((i + 1) mod ?n)) else Num (int i))"
  proof (cases "t - lastFrameTime s \<ge> dwell fps ?n i")
    case True
    then have "t - lastFrameTime s \<ge> currentFrameInterval fps s" by (simp add: cfi)
    from tick_moves(1) [OF assms(2,3,4) this] True show ?thesis by simp
  next
    case False
    then have "t - lastFrameTime s < currentFrameInterval fps s" by (simp add: cfi)
    from tick_holds(1) [OF assms(2) this] False assms(3) show ?thesis by simp
  qed
  have full: "loop_time fps ?n i ?n =
      real (?n - 1) * FRAME_INTERVAL_MS fps + LAST_FRAME_HOLD_TIME_MS"
    using assms(4) by (rule loop_time_full)
  have bound: "\<forall>t\<in>set ts. t \<le> lastFrameTime s + loop_time fps ?n i ?n"
    using assms(7) by (simp only: full)
  from ticks_through_thresholds [OF assms(1,2,3,4,5,6) bound]
  have "count_advances fps s ts = ?n"
    and "currentIndex (run_ticks fps s ts) = Num (int ((i + ?n) mod ?n))"
    by simp_all
  moreover have "(i + ?n) mod ?n = i" using assms(4) by simp
  ultimately show ?thesis using one by simp
qed

text \<open>
  The three-frame page at 5 fps, ticked every 100 ms for 1400 ms: the thresholds are
  reached at 200, 400 and 1400 ms, all of them ticks.
\<close>

lemma loop_time_abc_Suc:
  "loop_time 5 3 0 (Suc 0) = 200"
  "loop_time 5 3 0 (Suc (Suc 0)) = 400"
  "loop_time 5 3 0 (Suc (Suc (Suc 0))) = 1400"
  by (simp_all add: dwell_def FRAME_INTERVAL_MS_def LAST_FRAME_HOLD_TIME_MS_def)

lemma loop_time_abc:
  "loop_time 5 3 0 1 = 200" "loop_time 5 3 0 2 = 400" "loop_time 5 3 0 3 = 1400"
  using loop_time_abc_Suc by (simp_all only: numeral_2_eq_2 numeral_3_eq_3 One_nat_def)

theorem full_loop_closure_witness:
  "isPlaying abc_player \<and> currentIndex abc_player = Num 0 \<and>
   length (imagePaths abc_player) = 3 \<and> sorted_wrt (<) ticks_100 \<and>
   currentIndex (runAnimationLoop 5 abc_player 200) = Num 1 \<and>
   count_advances 5 abc_player ticks_100 = 3 \<and>
   currentIndex (run_ticks 5 abc_player ticks_100) = Num 0"
proof -
  have n: "length (imagePaths abc_player) = 3" by (simp add: abc_player_fields)
  have h1: "(0::real) < 5" by simp
  have h2: "isPlaying abc_player" by (rule abc_player_fields)
  have h3: "currentIndex abc_player = Num (int 0)" by (simp add: abc_player_fields)
  have h4: "0 < length (imagePaths abc_player)" by (simp add: n)
  have h5: "sorted_wrt (<) ticks_100" by (simp add: ticks_100_def)
  have at: "(0::real) + 200 \<in> set ticks_100" "(0::real) + 400 \<in> set ticks_100"
    "(0::real) + 1400 \<in> set ticks_100"
    by (simp_all add: ticks_100_def)
  have h6: "\<forall>k\<in>{1..length (imagePaths abc_player)}.
      lastFrameTime abc_player + loop_time 5 (length (imagePaths abc_player)) 0 k \<in> set ticks_100"
  proof
    fix k :: nat
    assume "k \<in> {1..length (imagePaths abc_player)}"
    then have "k = 1 \<or> k = 2 \<or> k = 3" unfolding n by auto
    then show "lastFrameTime abc_player + loop_time 5 (length (imagePaths abc_player)) 0 k
        \<in> set ticks_100"
      unfolding n abc_player_fields(4) using at by (auto simp only: loop_time_abc)
  qed
  have h7: "\<forall>t\<in>set ticks_100. t \<le> lastFrameTime abc_player +
      (real (length (imagePaths abc_player) - 1) * FRAME_INTERVAL_MS 5 + LAST_FRAME_HOLD_TIME_MS)"
    by (simp add: n abc_player_fields ticks_100_def FRAME_INTERVAL_MS_def
        LAST_FRAME_HOLD_TIME_MS_def)
  have d: "dwell 5 3 0 = 200"
    by (simp add: dwell_def FRAME_INTERVAL_MS_def)
  have m: "(0 + 1) mod 3 = (1::nat)" by simp
  from full_loop_closure [OF h1 h2 h3 h4 h5 h6 h7, of 200]
  have "currentIndex (runAnimationLoop 5 abc_player 200) = Num 1"
    and "count_advances 5 abc_player ticks_100 = 3"
    and "currentIndex (run_ticks 5 abc_player ticks_100) = Num 0"
    unfolding n abc_player_fields(4) d m by simp_all
  with h2 h5 n show ?thesis
    by (simp only: abc_player_fields(2) simp_thms)
qed

text \<open>
  The scenario of the specification: ticks exactly at 200, 400 and 1400 ms take the
  three-frame page to index 1, to index 2 and back to index 0.
\<close>

lemma abc_scenario:
  "currentIndex (run_ticks 5 abc_player [200]) = Num 1"
  "currentIndex (run_ticks 5 abc_player [200, 400]) = Num 2"
  "currentIndex (run_ticks 5 abc_player [200, 400, 1400]) = Num 0"
  "count_advances 5 abc_player [200, 400, 1400] = 3"
  by (simp_all add: tick_eval abc_player_def player_eval)

section \<open>Clamped-origin zoom: the origin fractions\<close>

lemma controlBox_floor: "1 \<le> controlBoxWidth r" "1 \<le> controlBoxHeight r"
  by (simp_all add: controlBoxWidth_def controlBoxHeight_def)

lemma clamped_lower: "CONTROL_INSET_PX \<le> clampedX r e" "CONTROL_INSET_PX \<le> clampedY r e"
  by (simp_all add: clampedX_def clampedY_def Let_def)

lemma clampedX_upper: "clampedX r e - CONTROL_INSET_PX \<le> controlBoxWidth r"
  by (simp add: clampedX_def controlBoxWidth_def Let_def max_def min_def)

lemma clampedY_upper: "clampedY r e - CONTROL_INSET_PX \<le> controlBoxHeight r"
  by (simp add: clampedY_def controlBoxHeight_def Let_def max_def min_def)

lemma originX_range: "0 \<le> originX r e \<and> originX r e \<le> 1"
proof -
  have pos: "0 < controlBoxWidth r" using controlBox_floor(1) [of r] by simp
  have "0 \<le> clampedX r e - CONTROL_INSET_PX" using clamped_lower(1) [of r e] by simp
  then have "0 \<le> originX r e" using pos by (simp add: originX_def)
  moreover have "originX r e \<le> 1"
    using clampedX_upper [of r e] pos by (simp add: originX_def)
  ultimately show ?thesis by simp
qed

lemma originY_range: "0 \<le> originY r e \<and> originY r e \<le> 1"
proof -
  have pos: "0 < controlBoxHeight r" using controlBox_floor(2) [of r] by simp
  have "0 \<le> clampedY r e - CONTROL_INSET_PX" using clamped_lower(2) [of r e] by simp
  then have "0 \<le> originY r e" using pos by (simp add: originY_def)
  moreover have "originY r e \<le> 1"
    using clampedY_upper [of r e] pos by (simp add: originY_def)
  ultimately show ?thesis by simp
qed

lemma originX_wide:
  assumes "2 * CONTROL_INSET_PX + 1 \<le> rect_width r"
  shows "clientX e - rect_left r \<le> CONTROL_INSET_PX \<Longrightarrow> originX r e = 0"
    and "rect_width r - CONTROL_INSET_PX \<le> clientX e - rect_left r \<Longrightarrow> originX r e = 1"
    and "clientX e = rect_left r + rect_width r / 2 \<Longrightarrow> originX r e = 1 / 2"
proof -
  have box: "controlBoxWidth r = rect_width r - 2 * CONTROL_INSET_PX"
    using assms by (simp add: controlBoxWidth_def)
  have pos: "0 < rect_width r - 2 * CONTROL_INSET_PX" using assms by simp
  show "clientX e - rect_left r \<le> CONTROL_INSET_PX \<Longrightarrow> originX r e = 0"
    using assms by (simp add: originX_def clampedX_def Let_def max_def min_def)
  show "rect_width r - CONTROL_INSET_PX \<le> clientX e - rect_left r \<Longrightarrow> originX r e = 1"
    using pos by (simp add: originX_def box clampedX_def Let_def max_def min_def)
  show "clientX e = rect_left r + rect_width r / 2 \<Longrightarrow> originX r e = 1 / 2"
  proof -
    assume c: "clientX e = rect_left r + rect_width r / 2"
    have "clampedX r e = rect_width r / 2"
      using pos by (simp add: c clampedX_def Let_def max_def min_def)
    then have "originX r e = (rect_width r / 2 - CONTROL_INSET_PX)
        / (rect_width r - 2 * CONTROL_INSET_PX)"
      by (simp add: originX_def box)
    also have "rect_width r / 2 - CONTROL_INSET_PX = (rect_width r - 2 * CONTROL_INSET_PX) / 2"
      by simp
    finally show "originX r e = 1 / 2" using pos by simp
  qed
qed

lemma originY_wide:
  assumes "2 * CONTROL_INSET_PX + 1 \<le> rect_height r"
  shows "clientY e - rect_top r \<le> CONTROL_INSET_PX \<Longrightarrow> originY r e = 0"
    and "rect_height r - CONTROL_INSET_PX \<le> clientY e - rect_top r \<Longrightarrow> originY r e = 1"
    and "clientY e = rect_top r + rect_height r / 2 \<Longrightarrow> originY r e = 1 / 2"
proof -
  have box: "controlBoxHeight r = rect_height r - 2 * CONTROL_INSET_PX"
    using assms by (simp add: controlBoxHeight_def)
  have pos: "0 < rect_height r - 2 * CONTROL_INSET_PX" using assms by simp
  show "clientY e - rect_top r \<le> CONTROL_INSET_PX \<Longrightarrow> originY r e = 0"
    using assms by (simp add: originY_def clampedY_def Let_def max_def min_def)
  show "rect_height r - CONTROL_INSET_PX \<le> clientY e - rect_top r \<Longrightarrow> originY r e = 1"
    using pos by (simp add: originY_def box clampedY_def Let_def max_def min_def)
  show "clientY e = rect_top r + rect_height r / 2 \<Longrightarrow> originY r e = 1 / 2"
  proof -
    assume c: "clientY e = rect_top r + rect_height r / 2"
    have "clampedY r e = rect_height r / 2"
      using pos by (simp add: c clampedY_def Let_def max_def min_def)
    then have "originY r e = (rect_height r / 2 - CONTROL_INSET_PX)
        / (rect_height r - 2 * CONTROL_INSET_PX)"
      by (simp add: originY_def box)
    also have "rect_height r / 2 - CONTROL_INSET_PX = (rect_height r - 2 * CONTROL_INSET_PX) / 2"
      by simp
    finally show "originY r e = 1 / 2" using pos by simp
  qed
qed

lemma originX_narrow:
  assumes "rect_width r \<le> 2 * CONTROL_INSET_PX"
  shows "controlBoxWidth r = 1" "clampedX r e = CONTROL_INSET_PX" "originX r e = 0"
proof -
  show "controlBoxWidth r = 1" using assms by (simp add: controlBoxWidth_def)
  show c: "clampedX r e = CONTROL_INSET_PX"
    using assms by (simp add: clampedX_def Let_def max_def min_def)
  show "originX r e = 0" by (simp add: originX_def c)
qed

lemma originY_narrow:
  assumes "rect_height r \<le> 2 * CONTROL_INSET_PX"
  shows "controlBoxHeight r = 1" "clampedY r e = CONTROL_INSET_PX" "originY r e = 0"
proof -
  show "controlBoxHeight r = 1" using assms by (simp add: controlBoxHeight_def)
  show c: "clampedY r e = CONTROL_INSET_PX"
    using assms by (simp add: clampedY_def Let_def max_def min_def)
  show "originY r e = 0" by (simp add: originY_def c)
qed

lemmas sample_eval =
  rect_at_def touch_at_def mouse_at_def second_touch_at_def CONTROL_INSET_PX_def
  controlBoxWidth_def controlBoxHeight_def clampedX_def clampedY_def originX_def originY_def
  Let_def

text \<open>
  C7, as the claim states it, fails for small rectangles.  On a 150 by 100 rectangle the
  pointer at the exact centre gives the origin \<open>(0, 0)\<close>, not \<open>(0.5, 0.5)\<close>; on a rectangle
  160.5 wide a pointer far to the right of the control box gives the fraction \<open>0.5\<close>,
  which is neither 0 nor 1.
\<close>

theorem origin_on_small_rect:
  "clientX (touch_at 1 75 50) = rect_left (rect_at 0 0 150 100) + rect_width (rect_at 0 0 150 100) / 2 \<and>
   clientY (touch_at 1 75 50) = rect_top (rect_at 0 0 150 100) + rect_height (rect_at 0 0 150 100) / 2 \<and>
   originX (rect_at 0 0 150 100) (touch_at 1 75 50) = 0 \<and>
   originY (rect_at 0 0 150 100) (touch_at 1 75 50) = 0 \<and>
   originX (rect_at 0 0 (321 / 2) 300) (touch_at 1 200 150) = 1 / 2"
  by (simp add: sample_eval)

text \<open>
  C7, amended.  For every rectangle and pointer position both origin fractions lie in
  \<open>[0, 1]\<close>, and \<open>applyZoom\<close> writes them as percentages.  On an axis where the rectangle
  is at least \<open>2 * inset + 1\<close> long, a position at or beyond the near edge of the
  control box gives exactly 0, one at or beyond the far edge gives exactly 1, and the
  exact centre gives 0.5.  On a 400 by 300 rectangle a pointer on the top-left corner is
  clamped to \<open>(80, 80)\<close> and gives the origin \<open>(0, 0)\<close>.
\<close>

theorem clamped_origin_fractions:
  "0 \<le> originX r e \<and> originX r e \<le> 1 \<and> 0 \<le> originY r e \<and> originY r e \<le> 1 \<and>
   (imageRectCache s = Some r \<longrightarrow>
      zoomWrapper_transformOrigin (applyZoom s e) = Some (originX r e * 100, originY r e * 100)) \<and>
   (2 * CONTROL_INSET_PX + 1 \<le> rect_width r \<longrightarrow>
      (clientX e - rect_left r \<le> CONTROL_INSET_PX \<longrightarrow> originX r e = 0) \<and>
      (rect_width r - CONTROL_INSET_PX \<le> clientX e - rect_left r \<longrightarrow> originX r e = 1) \<and>
      (clientX e = rect_left r + rect_width r / 2 \<longrightarrow> originX r e = 1 / 2)) \<and>
   (2 * CONTROL_INSET_PX + 1 \<le> rect_height r \<longrightarrow>
      (clientY e - rect_top r \<le> CONTROL_INSET_PX \<longrightarrow> originY r e = 0) \<and>
      (rect_height r - CONTROL_INSET_PX \<le> clientY e - rect_top r \<longrightarrow> originY r e = 1) \<and>
      (clientY e = rect_top r + rect_height r / 2 \<longrightarrow> originY r e = 1 / 2)) \<and>
   (rect_width r = 400 \<and> rect_height r = 300 \<and> clientX e = rect_left r \<and> clientY e = rect_top r \<longrightarrow>
      clampedX r e = 80 \<and> clampedY r e = 80 \<and> originX r e = 0 \<and> originY r e = 0)"
proof -
  have x: "0 \<le> originX r e" "originX r e \<le> 1" using originX_range [of r e] by simp_all
  have y: "0 \<le> originY r e" "originY r e \<le> 1" using originY_range [of r e] by simp_all
  have style: "imageRectCache s = Some r \<longrightarrow>
      zoomWrapper_transformOrigin (applyZoom s e) = Some (originX r e * 100, originY r e * 100)"
    by (simp add: applyZoom_def)
  have wide: "2 * CONTROL_INSET_PX + 1 \<le> rect_width r \<longrightarrow>
      (clientX e - rect_left r \<le> CONTROL_INSET_PX \<longrightarrow> originX r e = 0) \<and>
      (rect_width r - CONTROL_INSET_PX \<le> clientX e - rect_left r \<longrightarrow> originX r e = 1) \<and>
      (clientX e = rect_left r + rect_width r / 2 \<longrightarrow> originX r e = 1 / 2)"
    by (intro impI conjI) (erule (1) originX_wide)+
  have high: "2 * CONTROL_INSET_PX + 1 \<le> rect_height r \<longrightarrow>
      (clientY e - rect_top r \<le> CONTROL_INSET_PX \<longrightarrow> originY r e = 0) \<and>
      (rect_height r - CONTROL_INSET_PX \<le> clientY e - rect_top r \<longrightarrow> originY r e = 1) \<and>
      (clientY e = rect_top r + rect_height r / 2 \<longrightarrow> originY r e = 1 / 2)"
    by (intro impI conjI) (erule (1) originY_wide)+
  have corner: "rect_width r = 400 \<and> rect_height r = 300 \<and> clientX e = rect_left r \<and>
      clientY e = rect_top r \<longrightarrow>
      clampedX r e = 80 \<and> clampedY r e = 80 \<and> originX r e = 0 \<and> originY r e = 0"
    by (simp add: originX_def originY_def clampedX_def clampedY_def CONTROL_INSET_PX_def Let_def)
  show ?thesis
    by (intro conjI) (rule x y style wide high corner)+
qed

theorem clamped_origin_fractions_witness:
  "2 * CONTROL_INSET_PX + 1 \<le> rect_width (rect_at 10 20 400 300) \<and>
   2 * CONTROL_INSET_PX + 1 \<le> rect_height (rect_at 10 20 400 300) \<and>
   originX (rect_at 10 20 400 300) (touch_at 1 210 170) = 1 / 2 \<and>
   originY (rect_at 10 20 400 300) (touch_at 1 210 170) = 1 / 2 \<and>
   originX (rect_at 10 20 400 300) (touch_at 1 10 20) = 0 \<and>
   originY (rect_at 10 20 400 300) (touch_at 1 10 20) = 0 \<and>
   originX (rect_at 10 20 400 300) (touch_at 1 500 400) = 1 \<and>
   originY (rect_at 10 20 400 300) (touch_at 1 500 400) = 1"
proof -
  have w: "2 * CONTROL_INSET_PX + 1 \<le> rect_width (rect_at 10 20 400 300)"
    and h: "2 * CONTROL_INSET_PX + 1 \<le> rect_height (rect_at 10 20 400 300)"
    by (simp_all add: rect_at_def CONTROL_INSET_PX_def)
  have centre: "clientX (touch_at 1 210 170)
        = rect_left (rect_at 10 20 400 300) + rect_width (rect_at 10 20 400 300) / 2"
    "clientY (touch_at 1 210 170)
        = rect_top (rect_at 10 20 400 300) + rect_height (rect_at 10 20 400 300) / 2"
    by (simp_all add: rect_at_def touch_at_def)
  have corner: "rect_width (rect_at 10 20 400 300) = 400" "rect_height (rect_at 10 20 400 300) = 300"
    "clientX (touch_at 1 10 20) = rect_left (rect_at 10 20 400 300)"
    "clientY (touch_at 1 10 20) = rect_top (rect_at 10 20 400 300)"
    by (simp_all add: rect_at_def touch_at_def)
  have far: "rect_width (rect_at 10 20 400 300) - CONTROL_INSET_PX
        \<le> clientX (touch_at 1 500 400) - rect_left (rect_at 10 20 400 300)"
    "rect_height (rect_at 10 20 400 300) - CONTROL_INSET_PX
        \<le> clientY (touch_at 1 500 400) - rect_top (rect_at 10 20 400 300)"
    by (simp_all add: rect_at_def touch_at_def CONTROL_INSET_PX_def)
  note centre_facts = clamped_origin_fractions [of "rect_at 10 20 400 300" "touch_at 1 210 170"]
  note corner_facts = clamped_origin_fractions [of "rect_at 10 20 400 300" "touch_at 1 10 20"]
  note far_facts = clamped_origin_fractions [of "rect_at 10 20 400 300" "touch_at 1 500 400"]
  have 1: "originX (rect_at 10 20 400 300) (touch_at 1 210 170) = 1 / 2"
    "originY (rect_at 10 20 400 300) (touch_at 1 210 170) = 1 / 2"
    using centre_facts w h centre by simp_all
  have 2: "originX (rect_at 10 20 400 300) (touch_at 1 10 20) = 0"
    "originY (rect_at 10 20 400 300) (touch_at 1 10 20) = 0"
    using corner_facts corner by simp_all
  have 3: "originX (rect_at 10 20 400 300) (touch_at 1 500 400) = 1"
    "originY (rect_at 10 20 400 300) (touch_at 1 500 400) = 1"
    using far_facts w h far by simp_all
  show ?thesis
    by (intro conjI) (rule w h 1 2 3)+
qed

text \<open>
  C10.  The computation is total: \<open>applyZoom\<close> returns the state unchanged when there is no
  snapshot, and otherwise divides by a control-box length that is at least 1, hence never
  zero.  When the rectangle's width (height) is at most twice the inset, that length is
  exactly 1, the clamped coordinate is the inset and the origin fraction of the axis
  is 0.  In every case both fractions lie in \<open>[0, 1]\<close>.
\<close>

theorem clamped_origin_degenerate:
  "1 \<le> controlBoxWidth r \<and> 1 \<le> controlBoxHeight r \<and>
   controlBoxWidth r \<noteq> 0 \<and> controlBoxHeight r \<noteq> 0 \<and>
   (rect_width r \<le> 2 * CONTROL_INSET_PX \<longrightarrow>
      controlBoxWidth r = 1 \<and> clampedX r e = CONTROL_INSET_PX \<and> originX r e = 0) \<and>
   (rect_height r \<le> 2 * CONTROL_INSET_PX \<longrightarrow>
      controlBoxHeight r = 1 \<and> clampedY r e = CONTROL_INSET_PX \<and> originY r e = 0) \<and>
   0 \<le> originX r e \<and> originX r e \<le> 1 \<and> 0 \<le> originY r e \<and> originY r e \<le> 1 \<and>
   (imageRectCache s = None \<longrightarrow> applyZoom s e = s) \<and>
   (imageRectCache s = Some r \<longrightarrow>
      zoomWrapper_transformOrigin (applyZoom s e) = Some (originX r e * 100, originY r e * 100))"
proof -
  have fl: "1 \<le> controlBoxWidth r" "1 \<le> controlBoxHeight r"
    by (rule controlBox_floor)+
  have nz: "controlBoxWidth r \<noteq> 0" "controlBoxHeight r \<noteq> 0"
    using fl by simp_all
  have narrow: "rect_width r \<le> 2 * CONTROL_INSET_PX \<longrightarrow>
      controlBoxWidth r = 1 \<and> clampedX r e = CONTROL_INSET_PX \<and> originX r e = 0"
    by (intro impI conjI) (erule originX_narrow)+
  have low: "rect_height r \<le> 2 * CONTROL_INSET_PX \<longrightarrow>
      controlBoxHeight r = 1 \<and> clampedY r e = CONTROL_INSET_PX \<and> originY r e = 0"
    by (intro impI conjI) (erule originY_narrow)+
  have x: "0 \<le> originX r e" "originX r e \<le> 1" using originX_range [of r e] by simp_all
  have y: "0 \<le> originY r e" "originY r e \<le> 1" using originY_range [of r e] by simp_all
  have total: "imageRectCache s = None \<longrightarrow> applyZoom s e = s"
    and style: "imageRectCache s = Some r \<longrightarrow>
      zoomWrapper_transformOrigin (applyZoom s e) = Some (originX r e * 100, originY r e * 100)"
    by (simp_all add: applyZoom_def)
  show ?thesis
    by (intro conjI) (rule fl nz narrow low x y total style)+
qed

theorem clamped_origin_degenerate_witness:
  "rect_width (rect_at 0 0 160 100) \<le> 2 * CONTROL_INSET_PX \<and>
   rect_height (rect_at 0 0 160 100) \<le> 2 * CONTROL_INSET_PX \<and>
   controlBoxWidth (rect_at 0 0 160 100) = 1 \<and> controlBoxHeight (rect_at 0 0 160 100) = 1 \<and>
   clampedX (rect_at 0 0 160 100) (touch_at 1 120 90) = CONTROL_INSET_PX \<and>
   clampedY (rect_at 0 0 160 100) (touch_at 1 120 90) = CONTROL_INSET_PX \<and>
   originX (rect_at 0 0 160 100) (touch_at 1 120 90) = 0 \<and>
   originY (rect_at 0 0 160 100) (touch_at 1 120 90) = 0 \<and>
   imageRectCache initial_zoom = None \<and>
   applyZoom initial_zoom (touch_at 1 120 90) = initial_zoom"
proof -
  have w: "rect_width (rect_at 0 0 160 100) \<le> 2 * CONTROL_INSET_PX"
    and h: "rect_height (rect_at 0 0 160 100) \<le> 2 * CONTROL_INSET_PX"
    by (simp_all add: rect_at_def CONTROL_INSET_PX_def)
  have n: "imageRectCache initial_zoom = None"
    by (simp add: initial_zoom_def)
  note facts = clamped_origin_degenerate [of "rect_at 0 0 160 100" "touch_at 1 120 90" initial_zoom]
  have 1: "controlBoxWidth (rect_at 0 0 160 100) = 1"
    "clampedX (rect_at 0 0 160 100) (touch_at 1 120 90) = CONTROL_INSET_PX"
    "originX (rect_at 0 0 160 100) (touch_at 1 120 90) = 0"
    using facts w by simp_all
  have 2: "controlBoxHeight (rect_at 0 0 160 100) = 1"
    "clampedY (rect_at 0 0 160 100) (touch_at 1 120 90) = CONTROL_INSET_PX"
    "originY (rect_at 0 0 160 100) (touch_at 1 120 90) = 0"
    using facts h by simp_all
  have 3: "applyZoom initial_zoom (touch_at 1 120 90) = initial_zoom"
    using facts n by simp
  show ?thesis
    by (intro conjI) (rule w h n 1 2 3)+
qed

section \<open>Gestures: geometry snapshots\<close>

lemmas gesture_eval =
  handlePointerDown_def handlePointerMove_def handlePointerUp_def applyZoom_def resetZoom_def
  initial_zoom_def ALLOW_MOUSE_INPUT_def fixed_pointerdown_def startZoom_def moveZoom_def
  endZoom_def applyZoomAt_def initial_fixed_zoom_def ZOOM_SCALE_fixed_def

lemma handlePointerDown_primary:
  assumes "isPrimary e"
  shows "isZooming (handlePointerDown s r e)"
    and "imageRectCache (handlePointerDown s r e) = Some r"
    and "zoomWrapper_transformOrigin (handlePointerDown s r e)
           = Some (originX r e * 100, originY r e * 100)"
  using assms by (simp_all add: handlePointerDown_def applyZoom_def ALLOW_MOUSE_INPUT_def)

lemma handlePointerMove_snapshot:
  assumes "isZooming s" "imageRectCache s = Some r"
  shows "isZooming (handlePointerMove s e)"
    and "imageRectCache (handlePointerMove s e) = Some r"
    and "zoomWrapper_transformOrigin (handlePointerMove s e)
           = Some (originX r e * 100, originY r e * 100)"
  using assms by (simp_all add: handlePointerMove_def applyZoom_def)

lemma zoom_moves_snapshot:
  assumes "isZooming s" "imageRectCache s = Some r"
    and "zoomWrapper_transformOrigin s = Some (originX r e0 * 100, originY r e0 * 100)"
  shows "imageRectCache (zoom_moves s ms) = Some r \<and>
         zoomWrapper_transformOrigin (zoom_moves s ms)
           = Some (originX r (last (e0 # map snd ms)) * 100,
                   originY r (last (e0 # map snd ms)) * 100)"
  using assms
proof (induction ms arbitrary: s e0)
  case Nil
  then show ?case by simp
next
  case (Cons m ms)
  obtain live e where m: "m = (live, e)" by (cases m)
  note step = handlePointerMove_snapshot [OF Cons.prems(1,2), of e]
  from Cons.IH [OF step] show ?case by (simp add: m)
qed

text \<open>
  C3, as the claim states it, fails in the fixed-point zoom and in the magnifier: both
  measure the image on every pointer-move.  The same pointer position after the layout
  has moved 50 px to the right gives another transform origin, and another background
  position of the lens, than at pointer-down.
\<close>

theorem move_measures_again:
  "image_transformOrigin touch_fixed_zoom = Some (100, 100) \<and>
   image_transformOrigin (moveZoom touch_fixed_zoom (rect_at 50 0 400 300) (touch_at 1 100 100))
     = Some (50, 100) \<and>
   magnifier_backgroundPosition touch_magnifier = Some (Some (- 410), Some (- 410)) \<and>
   magnifier_backgroundPosition
     (updateMagnifier touch_magnifier (rect_at 50 0 400 300) (rect_at 0 0 400 300)
        (touch_at 1 100 100))
     = Some (Some (- 160), Some (- 410))"
  by (simp add: touch_fixed_zoom_def touch_magnifier_def gesture_eval sample_eval
      magnifier_pointerdown_def showMagnifier_def updateMagnifier_def moveMagnifier_def
      updateMagnifierSource_def natural_size_def clamp_def js_div_def MAG_ZOOM_def
      MAG_RADIUS_def MAG_DIAMETER_def MAG_OFFSET_def abc_player_def player_eval)

text \<open>
  C3, amended.  In the clamped-origin zoom an accepted pointer-down stores the image's
  rectangle, and every pointer-move that follows computes the transform origin from
  that stored rectangle, whatever rectangle the image occupies at the time of the move;
  the stored rectangle itself stays as it is.  In the fixed-point zoom and in the
  magnifier a pointer-move of the captured pointer computes from the rectangle measured
  at the move.
\<close>

theorem clamped_zoom_uses_snapshot:
  "(isPrimary e0 \<longrightarrow>
      imageRectCache (zoom_moves (handlePointerDown s r e0) ms) = Some r \<and>
      zoomWrapper_transformOrigin (zoom_moves (handlePointerDown s r e0) ms)
        = Some (originX r (last (e0 # map snd ms)) * 100,
                originY r (last (e0 # map snd ms)) * 100)) \<and>
   (zoomActive f \<and> zoomPointerId f = Some (pointerId e) \<longrightarrow>
      image_transformOrigin (moveZoom f live e)
        = Some (clientX e - rect_left live, clientY e - rect_top live)) \<and>
   (magnifierActive p \<and> activePointerId p = Some (pointerId e) \<longrightarrow>
      updateMagnifier p live containerRect e
        = moveMagnifier p live containerRect (clientX e) (clientY e))"
proof -
  have a: "isPrimary e0 \<longrightarrow>
      imageRectCache (zoom_moves (handlePointerDown s r e0) ms) = Some r \<and>
      zoomWrapper_transformOrigin (zoom_moves (handlePointerDown s r e0) ms)
        = Some (originX r (last (e0 # map snd ms)) * 100,
                originY r (last (e0 # map snd ms)) * 100)"
  proof
    assume p: "isPrimary e0"
    show "imageRectCache (zoom_moves (handlePointerDown s r e0) ms) = Some r \<and>
      zoomWrapper_transformOrigin (zoom_moves (handlePointerDown s r e0) ms)
        = Some (originX r (last (e0 # map snd ms)) * 100,
                originY r (last (e0 # map snd ms)) * 100)"
      by (rule zoom_moves_snapshot [OF handlePointerDown_primary [OF p]])
  qed
  have b: "zoomActive f \<and> zoomPointerId f = Some (pointerId e) \<longrightarrow>
      image_transformOrigin (moveZoom f live e)
        = Some (clientX e - rect_left live, clientY e - rect_top live)"
    by (simp add: moveZoom_def applyZoomAt_def)
  have c: "magnifierActive p \<and> activePointerId p = Some (pointerId e) \<longrightarrow>
      updateMagnifier p live containerRect e
        = moveMagnifier p live containerRect (clientX e) (clientY e)"
    by (simp add: updateMagnifier_def)
  show ?thesis by (intro conjI) (rule a b c)+
qed

theorem clamped_zoom_uses_snapshot_witness:
  "isPrimary (touch_at 5 100 100) \<and>
   imageRectCache
     (zoom_moves touch_zoom
        [(rect_at 50 0 400 300, touch_at 5 200 150), (rect_at 90 10 400 300, touch_at 5 500 400)])
     = Some (rect_at 0 0 400 300) \<and>
   zoomWrapper_transformOrigin
     (zoom_moves touch_zoom
        [(rect_at 50 0 400 300, touch_at 5 200 150), (rect_at 90 10 400 300, touch_at 5 500 400)])
     = Some (100, 100)"
proof -
  have p: "isPrimary (touch_at 5 100 100)" by (simp add: touch_at_def)
  have l: "last (touch_at 5 100 100 #
      map snd [(rect_at 50 0 400 300, touch_at 5 200 150),
               (rect_at 90 10 400 300, touch_at 5 500 400)]) = touch_at 5 500 400"
    by simp
  have o: "originX (rect_at 0 0 400 300) (touch_at 5 500 400) * 100 = 100"
    "originY (rect_at 0 0 400 300) (touch_at 5 500 400) * 100 = 100"
    by (simp_all add: sample_eval)
  note facts = clamped_zoom_uses_snapshot [of "touch_at 5 100 100" initial_zoom
      "rect_at 0 0 400 300"
      "[(rect_at 50 0 400 300, touch_at 5 200 150), (rect_at 90 10 400 300, touch_at 5 500 400)]"]
  have "imageRectCache
     (zoom_moves touch_zoom
        [(rect_at 50 0 400 300, touch_at 5 200 150), (rect_at 90 10 400 300, touch_at 5 500 400)])
     = Some (rect_at 0 0 400 300)"
    and "zoomWrapper_transformOrigin
     (zoom_moves touch_zoom
        [(rect_at 50 0 400 300, touch_at 5 200 150), (rect_at 90 10 400 300, touch_at 5 500 400)])
     = Some (100, 100)"
    unfolding touch_zoom_def using facts p unfolding l o by simp_all
  with p show ?thesis by simp
qed

section \<open>Gestures: a second pointer-down\<close>

text \<open>
  C8, as the claim states it, fails.  In the clamped-origin zoom a gesture is running
  for touch pointer 5 when the mouse (pointer 1, primary for its own type) is pressed:
  the handler stores the new rectangle and captures the second pointer as well.  In the
  fixed-point zoom and in the magnifier a non-primary touch is not ignored: on an idle
  page it starts a gesture.
\<close>

theorem second_pointer_down_accepted:
  "isZooming touch_zoom \<and> imageRectCache touch_zoom = Some (rect_at 0 0 400 300) \<and>
   container_captured touch_zoom = {5} \<and>
   imageRectCache (handlePointerDown touch_zoom (rect_at 50 0 400 300) (mouse_at 1 300 200))
     = Some (rect_at 50 0 400 300) \<and>
   container_captured (handlePointerDown touch_zoom (rect_at 50 0 400 300) (mouse_at 1 300 200))
     = {1, 5} \<and>
   zoomActive (fixed_pointerdown initial_fixed_zoom (rect_at 0 0 400 300) (second_touch_at 2 100 100)) \<and>
   magnifierActive
     (magnifier_pointerdown abc_player (rect_at 0 0 400 300) (rect_at 0 0 400 300)
        (second_touch_at 2 100 100))"
  by (simp add: touch_zoom_def gesture_eval touch_at_def mouse_at_def second_touch_at_def
      magnifier_pointerdown_def showMagnifier_def moveMagnifier_def
      updateMagnifierSource_def natural_size_def Let_def abc_player_fields
      split: option.splits prod.splits)

text \<open>
  C8, amended.  In the fixed-point zoom and in the magnifier, while a gesture is active a
  pointer-down from any pointer changes nothing: no new gesture, no new measurement, the
  captured pointer id stays.  In the clamped-origin zoom a pointer-down from a non-primary
  pointer changes nothing, and one from a primary pointer stores the rectangle measured
  at that moment and captures the pointer, whether or not a gesture is running.
\<close>

theorem pointer_down_ignored:
  "(zoomActive f \<longrightarrow> fixed_pointerdown f live e = f) \<and>
   (magnifierActive s \<longrightarrow> magnifier_pointerdown s imgRect containerRect e = s) \<and>
   (\<not> isPrimary e \<longrightarrow> handlePointerDown z live e = z) \<and>
   (isPrimary e \<longrightarrow>
      imageRectCache (handlePointerDown z live e) = Some live \<and>
      container_captured (handlePointerDown z live e) = insert (pointerId e) (container_captured z))"
  by (simp add: fixed_pointerdown_def startZoom_def magnifier_pointerdown_def showMagnifier_def
      handlePointerDown_def applyZoom_def ALLOW_MOUSE_INPUT_def)

theorem pointer_down_ignored_witness:
  "zoomActive touch_fixed_zoom \<and> magnifierActive touch_magnifier \<and>
   fixed_pointerdown touch_fixed_zoom (rect_at 50 0 400 300) (touch_at 2 300 200) = touch_fixed_zoom \<and>
   zoomPointerId (fixed_pointerdown touch_fixed_zoom (rect_at 50 0 400 300) (touch_at 2 300 200))
     = Some 1 \<and>
   magnifier_pointerdown touch_magnifier (rect_at 50 0 400 300) (rect_at 0 0 400 300)
     (touch_at 2 300 200) = touch_magnifier \<and>
   handlePointerDown touch_zoom (rect_at 50 0 400 300) (second_touch_at 6 300 200) = touch_zoom"
proof -
  have a: "zoomActive touch_fixed_zoom" and i: "zoomPointerId touch_fixed_zoom = Some 1"
    by (simp_all add: touch_fixed_zoom_def gesture_eval touch_at_def)
  have m: "magnifierActive touch_magnifier"
    by (simp add: touch_magnifier_def magnifier_pointerdown_def showMagnifier_def
        moveMagnifier_def updateMagnifierSource_def natural_size_def Let_def touch_at_def
        abc_player_fields split: option.splits prod.splits)
  have n: "\<not> isPrimary (second_touch_at 6 300 200)" by (simp add: second_touch_at_def)
  have 1: "fixed_pointerdown touch_fixed_zoom (rect_at 50 0 400 300) (touch_at 2 300 200)
      = touch_fixed_zoom"
    using pointer_down_ignored [of touch_fixed_zoom "rect_at 50 0 400 300" "touch_at 2 300 200"] a
    by simp
  have 2: "magnifier_pointerdown touch_magnifier (rect_at 50 0 400 300) (rect_at 0 0 400 300)
     (touch_at 2 300 200) = touch_magnifier"
    using pointer_down_ignored [of _ _ "touch_at 2 300 200" touch_magnifier] m
    by simp
  have 3: "handlePointerDown touch_zoom (rect_at 50 0 400 300) (second_touch_at 6 300 200)
      = touch_zoom"
    using pointer_down_ignored [of _ _ "second_touch_at 6 300 200" _ _ _ touch_zoom] n
    by simp
  show ?thesis using a m i 1 2 3 by simp
qed

section \<open>Magnifier lens: background position and lens position\<close>

lemma clamp_between: "lo \<le> hi \<Longrightarrow> lo \<le> clamp v lo hi \<and> clamp v lo hi \<le> hi"
  by (simp add: clamp_def)

lemma moveMagnifier_sets:
  assumes "natural_size (imageCache s (property_key (js_index (imagePaths s) (currentIndex s))))
             (goesImage_naturalWidth s) (goesImage_naturalHeight s) = (nW, nH)"
    and "nW \<noteq> 0" "nH \<noteq> 0"
  shows "magnifier_backgroundPosition (moveMagnifier s imgRect containerRect cX cY) =
           Some (map_option (\<lambda>n. - (n * MAG_ZOOM - MAG_RADIUS))
                   (map_option (\<lambda>k. clamp (cX - rect_left imgRect) 0 (rect_width imgRect) * k)
                      (js_div (real nW) (rect_width imgRect))),
                 map_option (\<lambda>n. - (n * MAG_ZOOM - MAG_RADIUS))
                   (map_option (\<lambda>k. clamp (cY - rect_top imgRect) 0 (rect_height imgRect) * k)
                      (js_div (real nH) (rect_height imgRect))))"
    and "magnifier_left (moveMagnifier s imgRect containerRect cX cY) =
           Some (clamp ((cX - rect_left containerRect) + fst MAG_OFFSET - MAG_RADIUS) 0
                   (rect_width containerRect - MAG_DIAMETER))"
    and "magnifier_top (moveMagnifier s imgRect containerRect cX cY) =
           Some (clamp ((cY - rect_top containerRect) + snd MAG_OFFSET - MAG_RADIUS) 0
                   (rect_height containerRect - MAG_DIAMETER))"
  using assms by (simp_all add: moveMagnifier_def Let_def)

text \<open>
  C6.  Let the natural size of the current frame be known (\<open>nW\<close> and \<open>nH\<close> not zero,
  otherwise \<open>moveMagnifier\<close> returns before it sets anything) and let the displayed image
  have a positive width and height.  For every pointer position \<open>moveMagnifier\<close> sets the
  background position of the lens, in each axis, to \<open>-(n * zoom - radius)\<close>, where \<open>n\<close> is
  the pointer's position relative to the image, clamped into the image rectangle and
  multiplied by the ratio of natural to displayed size.  It sets the lens's left and top
  to the offset lens position clamped with the bounds 0 and container size minus lens
  diameter, which lies between these bounds whenever the container is at least as large
  as the lens.
\<close>

theorem magnifier_lens_geometry:
  assumes "natural_size (imageCache s (property_key (js_index (imagePaths s) (currentIndex s))))
             (goesImage_naturalWidth s) (goesImage_naturalHeight s) = (nW, nH)"
    and "nW \<noteq> 0" "nH \<noteq> 0"
    and "0 < rect_width imgRect" "0 < rect_height imgRect"
  shows "magnifier_backgroundPosition (moveMagnifier s imgRect containerRect cX cY) =
           Some (Some (- (clamp (cX - rect_left imgRect) 0 (rect_width imgRect)
                            * (real nW / rect_width imgRect) * MAG_ZOOM - MAG_RADIUS)),
                 Some (- (clamp (cY - rect_top imgRect) 0 (rect_height imgRect)
                            * (real nH / rect_height imgRect) * MAG_ZOOM - MAG_RADIUS))) \<and>
         magnifier_left (moveMagnifier s imgRect containerRect cX cY) =
           Some (clamp ((cX - rect_left containerRect) + 16 - MAG_RADIUS) 0
                   (rect_width containerRect - MAG_DIAMETER)) \<and>
         magnifier_top (moveMagnifier s imgRect containerRect cX cY) =
           Some (clamp ((cY - rect_top containerRect) - (MAG_RADIUS + 16) - MAG_RADIUS) 0
                   (rect_height containerRect - MAG_DIAMETER)) \<and>
         (MAG_DIAMETER \<le> rect_width containerRect \<longrightarrow>
            (\<exists>l. magnifier_left (moveMagnifier s imgRect containerRect cX cY) = Some l \<and>
                 0 \<le> l \<and> l \<le> rect_width containerRect - MAG_DIAMETER)) \<and>
         (MAG_DIAMETER \<le> rect_height containerRect \<longrightarrow>
            (\<exists>t. magnifier_top (moveMagnifier s imgRect containerRect cX cY) = Some t \<and>
                 0 \<le> t \<and> t \<le> rect_height containerRect - MAG_DIAMETER))"
proof -
  note sets = moveMagnifier_sets [OF assms(1,2,3), of imgRect containerRect cX cY]
  have bg: "magnifier_backgroundPosition (moveMagnifier s imgRect containerRect cX cY) =
           Some (Some (- (clamp (cX - rect_left imgRect) 0 (rect_width imgRect)
                            * (real nW / rect_width imgRect) * MAG_ZOOM - MAG_RADIUS)),
                 Some (- (clamp (cY - rect_top imgRect) 0 (rect_height imgRect)
                            * (real nH / rect_height imgRect) * MAG_ZOOM - MAG_RADIUS)))"
    using assms(4,5) by (simp add: sets(1) js_div_def)
  have left: "magnifier_left (moveMagnifier s imgRect containerRect cX cY) =
           Some (clamp ((cX - rect_left containerRect) + 16 - MAG_RADIUS) 0
                   (rect_width containerRect - MAG_DIAMETER))"
    by (simp add: sets(2) MAG_OFFSET_def)
  have top: "magnifier_top (moveMagnifier s imgRect containerRect cX cY) =
           Some (clamp ((cY - rect_top containerRect) - (MAG_RADIUS + 16) - MAG_RADIUS) 0
                   (rect_height containerRect - MAG_DIAMETER))"
    by (simp add: sets(3) MAG_OFFSET_def)
  have left_in: "MAG_DIAMETER \<le> rect_width containerRect \<longrightarrow>
            (\<exists>l. magnifier_left (moveMagnifier s imgRect containerRect cX cY) = Some l \<and>
                 0 \<le> l \<and> l \<le> rect_width containerRect - MAG_DIAMETER)"
    unfolding left by (simp add: clamp_between)
  have top_in: "MAG_DIAMETER \<le> rect_height containerRect \<longrightarrow>
            (\<exists>t. magnifier_top (moveMagnifier s imgRect containerRect cX cY) = Some t \<and>
                 0 \<le> t \<and> t \<le> rect_height containerRect - MAG_DIAMETER)"
    unfolding top by (simp add: clamp_between)
  show ?thesis
    by (intro conjI) (rule bg left top left_in top_in)+
qed

theorem magnifier_lens_geometry_witness:
  "magnifier_backgroundPosition
     (moveMagnifier abc_player (rect_at 0 0 400 300) (rect_at 0 0 400 300) 100 100)
     = Some (Some (- 410), Some (- 410)) \<and>
   magnifier_left (moveMagnifier abc_player (rect_at 0 0 400 300) (rect_at 0 0 400 300) 100 100)
     = Some 26 \<and>
   magnifier_top (moveMagnifier abc_player (rect_at 0 0 400 300) (rect_at 0 0 400 300) 100 100)
     = Some 0"
proof -
  have h1: "natural_size
      (imageCache abc_player
         (property_key (js_index (imagePaths abc_player) (currentIndex abc_player))))
      (goesImage_naturalWidth abc_player) (goesImage_naturalHeight abc_player) = (800, 600)"
    by (simp add: natural_size_def abc_player_def player_eval)
  have h2: "(800::nat) \<noteq> 0" "(600::nat) \<noteq> 0" by simp_all
  have h3: "0 < rect_width (rect_at 0 0 400 300)" "0 < rect_height (rect_at 0 0 400 300)"
    by (simp_all add: rect_at_def)
  note facts = magnifier_lens_geometry [OF h1 h2 h3, of "rect_at 0 0 400 300" 100 100]
  have v: "- (clamp (100 - rect_left (rect_at 0 0 400 300)) 0 (rect_width (rect_at 0 0 400 300))
             * (real 800 / rect_width (rect_at 0 0 400 300)) * MAG_ZOOM - MAG_RADIUS) = - 410"
    "- (clamp (100 - rect_top (rect_at 0 0 400 300)) 0 (rect_height (rect_at 0 0 400 300))
             * (real 600 / rect_height (rect_at 0 0 400 300)) * MAG_ZOOM - MAG_RADIUS) = - 410"
    "clamp ((100 - rect_left (rect_at 0 0 400 300)) + 16 - MAG_RADIUS) 0
       (rect_width (rect_at 0 0 400 300) - MAG_DIAMETER) = 26"
    "clamp ((100 - rect_top (rect_at 0 0 400 300)) - (MAG_RADIUS + 16) - MAG_RADIUS) 0
       (rect_height (rect_at 0 0 400 300) - MAG_DIAMETER) = 0"
    by (simp_all add: rect_at_def clamp_def MAG_ZOOM_def MAG_RADIUS_def MAG_DIAMETER_def)
  show ?thesis
    using facts unfolding v by simp
qed

end
